theory Spec2Isabelle
  imports Main "HOL-Library.List_Lexorder"
begin

section \<open>Python text primitives\<close>

text \<open>
  A Python \<open>str\<close> is a sequence of Unicode code points; \<open>len\<close>, slicing and the
  \<open>re\<close> module count code points.  A string is therefore a list of code-point
  numbers, and a literal of the source is written \<open>ascii ''...''\<close>.
\<close>

type_synonym codepoint = nat
type_synonym pystr = "codepoint list"

definition ascii :: "string \<Rightarrow> pystr" where
  "ascii s = map of_char s"

text \<open>
  The case mappings and the decimal-digit property of the code points above 127 come from
  the Unicode character database of the interpreter, which is no part of the sources:
  they are a parameter of every function that calls \<open>str.upper\<close>, \<open>str.lower\<close> or
  matches \<open>\d\<close>.  On ASCII the functions below are fully determined.
\<close>

record ucd =
  uc_upper :: "codepoint \<Rightarrow> pystr"
  uc_lower :: "codepoint \<Rightarrow> pystr"
  uc_digit :: "codepoint \<Rightarrow> bool"

text \<open>\<open>str.isspace\<close> of one code point: what \<open>str.split()\<close>, \<open>str.strip()\<close> and the
  pattern \<open>\s\<close> treat as white space.\<close>

definition isspace :: "codepoint \<Rightarrow> bool" where
  "isspace c \<longleftrightarrow>
     (9 \<le> c \<and> c \<le> 13) \<or> (28 \<le> c \<and> c \<le> 32) \<or> c = 133 \<or> c = 160 \<or> c = 5760 \<or>
     (8192 \<le> c \<and> c \<le> 8202) \<or> c = 8232 \<or> c = 8233 \<or> c = 8239 \<or> c = 8287 \<or> c = 12288"

definition py_strip :: "pystr \<Rightarrow> pystr" where
  "py_strip s = rev (dropWhile isspace (rev (dropWhile isspace s)))"

text \<open>\<open>s.split()\<close>: the maximal runs of non-space code points, in order.\<close>

fun split_acc :: "pystr \<Rightarrow> pystr \<Rightarrow> pystr list" where
  "split_acc cur [] = (if cur = [] then [] else [cur])"
| "split_acc cur (c # cs) =
     (if isspace c then (if cur = [] then split_acc [] cs else cur # split_acc [] cs)
      else split_acc (cur @ [c]) cs)"

definition py_split :: "pystr \<Rightarrow> pystr list" where
  "py_split s = split_acc [] s"

text \<open>\<open>" ".join(ws)\<close>.\<close>

fun py_join :: "pystr list \<Rightarrow> pystr" where
  "py_join [] = []"
| "py_join [w] = w"
| "py_join (w # v # ws) = w @ [32] @ py_join (v # ws)"

text \<open>\<open>s.replace(",", " ")\<close>.\<close>

definition replace_comma :: "pystr \<Rightarrow> pystr" where
  "replace_comma s = map (\<lambda>c. if c = 44 then 32 else c) s"

definition upper_cp :: "ucd \<Rightarrow> codepoint \<Rightarrow> pystr" where
  "upper_cp U c = (if 97 \<le> c \<and> c \<le> 122 then [c - 32] else if c < 128 then [c] else uc_upper U c)"

definition py_upper :: "ucd \<Rightarrow> pystr \<Rightarrow> pystr" where
  "py_upper U s = concat (map (upper_cp U) s)"

definition lower_cp :: "ucd \<Rightarrow> codepoint \<Rightarrow> pystr" where
  "lower_cp U c = (if 65 \<le> c \<and> c \<le> 90 then [c + 32] else if c < 128 then [c] else uc_lower U c)"

definition py_lower :: "ucd \<Rightarrow> pystr \<Rightarrow> pystr" where
  "py_lower U s = concat (map (lower_cp U) s)"

text \<open>The entries of the interpreter's tables that the concrete runs of this theory read:
  U+0130 (capital I with dot above) lower-cases to the two code points U+0069 U+0307; every
  other code point above 127 that occurs in them is caseless and no digit.\<close>

definition sample_ucd :: ucd where
  "sample_ucd =
     \<lparr>uc_upper = (\<lambda>c. [c]),
      uc_lower = (\<lambda>c. if c = 304 then [105, 775] else [c]),
      uc_digit = (\<lambda>c. False)\<rparr>"

section \<open>Identifier normalisation (app.py)\<close>

text \<open>A spreadsheet cell as pandas hands it over: missing (\<open>NaN\<close>), or a value whose
  \<open>str()\<close> is the given text.\<close>

datatype cell = Str pystr | NaN

text \<open>\<open>re.fullmatch(r"B0[A-Z0-9]{8}", x)\<close>; without \<open>re.I\<close> the class is the 36 ASCII
  code points.\<close>

definition asin_char :: "codepoint \<Rightarrow> bool" where
  "asin_char c \<longleftrightarrow> (65 \<le> c \<and> c \<le> 90) \<or> (48 \<le> c \<and> c \<le> 57)"

definition fullmatch_asin :: "pystr \<Rightarrow> bool" where
  "fullmatch_asin x \<longleftrightarrow> length x = 10 \<and> take 2 x = [66, 48] \<and> list_all asin_char (drop 2 x)"

definition norm_asin :: "ucd \<Rightarrow> cell \<Rightarrow> pystr" where
  "norm_asin U x =
     (case x of
        NaN \<Rightarrow> []
      | Str s \<Rightarrow> (let x' = py_upper U (py_strip s) in if fullmatch_asin x' then x' else []))"

section \<open>Marketplace configuration and resolution (scraper\_products.py)\<close>

text \<open>A Python \<open>dict\<close> literal keeps its insertion order: an association list with
  distinct keys, read with \<open>map_of\<close>.\<close>

type_synonym target = "pystr \<times> pystr"

definition MARKETPLACES :: "target list" where
  "MARKETPLACES =
     [(ascii ''Amazon India'', ascii ''https://www.amazon.in/dp/''),
      (ascii ''Amazon USA'', ascii ''https://www.amazon.com/dp/''),
      (ascii ''Amazon SG'', ascii ''https://www.amazon.sg/dp/''),
      (ascii ''Amazon AE'', ascii ''https://www.amazon.ae/dp/''),
      (ascii ''Amazon UK'', ascii ''https://www.amazon.co.uk/dp/'')]"

definition MARKETPLACE_ALIASES :: "(pystr \<times> pystr) list" where
  "MARKETPLACE_ALIASES =
     [(ascii ''india'', ascii ''Amazon India''), (ascii ''in'', ascii ''Amazon India''),
      (ascii ''us'', ascii ''Amazon USA''), (ascii ''usa'', ascii ''Amazon USA''),
      (ascii ''united states'', ascii ''Amazon USA''), (ascii ''america'', ascii ''Amazon USA''),
      (ascii ''sg'', ascii ''Amazon SG''), (ascii ''singapore'', ascii ''Amazon SG''),
      (ascii ''ae'', ascii ''Amazon AE''), (ascii ''uae'', ascii ''Amazon AE''),
      (ascii ''united arab emirates'', ascii ''Amazon AE''),
      (ascii ''uk'', ascii ''Amazon UK''), (ascii ''gb'', ascii ''Amazon UK''),
      (ascii ''great britain'', ascii ''Amazon UK''), (ascii ''united kingdom'', ascii ''Amazon UK'')]"

text \<open>\<open>_resolve_marketplace\<close>.  The argument is \<open>Optional[str]\<close>; \<open>not x\<close> holds for
  \<open>None\<close> and for the empty string.\<close>

definition resolve_marketplace :: "ucd \<Rightarrow> pystr option \<Rightarrow> target option" where
  "resolve_marketplace U user_input =
     (case user_input of
        None \<Rightarrow> None
      | Some inp \<Rightarrow>
          if inp = [] then None
          else (case map_of MARKETPLACE_ALIASES (py_lower U (py_strip inp)) of
                  None \<Rightarrow> None
                | Some mp_name \<Rightarrow>
                    if mp_name = [] then None
                    else (case map_of MARKETPLACES mp_name of
                            None \<Rightarrow> None
                          | Some base_url \<Rightarrow> if base_url = [] then None else Some (mp_name, base_url))))"

text \<open>The target list \<open>specific_marketplaces\<close> that \<open>run_products_scraper\<close> builds from the
  selector.\<close>

definition specific_marketplaces :: "ucd \<Rightarrow> pystr option \<Rightarrow> target list" where
  "specific_marketplaces U marketplace =
     (case resolve_marketplace U marketplace of
        Some resolved \<Rightarrow> [resolved]
      | None \<Rightarrow> MARKETPLACES)"

section \<open>Product records (scraper\_products.py)\<close>

text \<open>A record of the result lists is a \<open>dict\<close> from column name to text, in insertion
  order.  Column names are literals of the program.\<close>

type_synonym row = "(string \<times> pystr) list"

definition NA :: pystr where
  "NA = ascii ''N/A''"

definition ALLOWED_ITEM_DETAILS :: "string list" where
  "ALLOWED_ITEM_DETAILS =
     [''Brand'', ''Model Number'', ''Country of Origin'',
      ''Customer Reviews'', ''Best Sellers Rank'', ''Manufacturer'', ''Packer'']"

text \<open>
  \<open>scrape_asin_from_url\<close> reads a product page and \<open>scrape_buybox_offers\<close> the offer
  listing.  What the pages hold is input from the network: \<open>ext\<close> gives the text the
  extraction ladder found for a column (a string in every case, the sentinel where nothing
  was found).  The dictionaries are assembled as in the source: \<open>product_data\<close> with its
  thirteen leading keys, then one key per entry of \<open>ALLOWED_ITEM_DETAILS\<close>, then
  \<open>update(box_data)\<close>.
\<close>

definition box_data_keys :: "string list" where
  "box_data_keys = [''Availability'', ''Delivery info'', ''Ships from'', ''Sold by'', ''Gift options'']"

definition product_data :: "pystr \<Rightarrow> pystr \<Rightarrow> (string \<Rightarrow> pystr) \<Rightarrow> row" where
  "product_data asin marketplace_name ext =
     [(''ASIN'', asin),
      (''Marketplace'', marketplace_name),
      (''Product Title'', ext ''Product Title''),
      (''Rating'', ext ''Rating''),
      (''Total Reviews'', ext ''Total Reviews''),
      (''Social Bought'', ext ''Social Bought''),
      (''Amazons_Choice_Text'', ext ''Amazons_Choice_Text''),
      (''Deal_Badge_Text'', ext ''Deal_Badge_Text''),
      (''Best_Seller_Text'', ext ''Best_Seller_Text''),
      (''Discount %'', ext ''Discount %''),
      (''Offer Price'', ext ''Offer Price''),
      (''Price per Unit'', ext ''Price per Unit''),
      (''MRP'', ext ''MRP'')]
     @ map (\<lambda>col. (col, ext col)) ALLOWED_ITEM_DETAILS
     @ map (\<lambda>col. (col, ext col)) box_data_keys"

definition offer_data :: "pystr \<Rightarrow> pystr \<Rightarrow> (string \<Rightarrow> pystr) \<Rightarrow> row" where
  "offer_data asin marketplace_name ext =
     [(''ASIN'', asin),
      (''Marketplace'', marketplace_name),
      (''Offer Price'', ext ''Offer Price''),
      (''Discount %'', ext ''Discount %''),
      (''MRP'', ext ''MRP''),
      (''Ships From'', ext ''Ships From''),
      (''Sold By'', ext ''Sold By''),
      (''Delivery Info'', ext ''Delivery Info''),
      (''Condition'', ext ''Condition''),
      (''Rating'', ext ''Rating''),
      (''Seller Performance'', ext ''Seller Performance'')]"

text \<open>One call of \<open>scrape_asin_from_url\<close> as the retry loop sees it: an exception, the
  pair \<open>(None, [])\<close> (request error, status other than 200, no title node), or a product
  page with the blocks of its offer listing.\<close>

datatype page_result =
    Raised
  | NoData
  | Page "string \<Rightarrow> pystr" "(string \<Rightarrow> pystr) list"

text \<open>The network: the answer to the \<open>n\<close>-th request of a run (counted from 0) for an
  identifier at a target.\<close>

type_synonym web = "nat \<Rightarrow> pystr \<Rightarrow> target \<Rightarrow> page_result"

datatype event = Scrape pystr pystr | Sleep nat

record run_state =
  all_main :: "row list"
  all_buybox :: "row list"
  trace :: "event list"
  requests :: nat

definition MAX_RETRIES :: nat where
  "MAX_RETRIES = 5"

datatype pyerror =
    UnboundLocalError | KeyError | AttributeError | ValueError | RuntimeError | TimeoutException | WebDriverException

text \<open>
  The body of \<open>for asin in asin_list\<close>.  In the source the \<open>while\<close> loop stands at the
  indentation of the \<open>for marketplace_name, base_url in specific_marketplaces\<close> statement,
  not inside it: the \<open>for\<close> loop only assigns \<open>data\<close>, \<open>sellers\<close> and \<open>retries\<close>, and
  the \<open>while\<close> loop runs once, after it, with the loop variables of the last iteration.
  \<open>for_targets\<close> is that \<open>for\<close> loop: the binding of \<open>(marketplace_name, base_url)\<close> it
  leaves, none when the list is empty (the \<open>while\<close> condition then reads an unbound
  \<open>retries\<close>).
\<close>

fun for_targets :: "target option \<Rightarrow> target list \<Rightarrow> target option" where
  "for_targets bound [] = bound"
| "for_targets bound (t # ts) = for_targets (Some t) ts"

text \<open>The \<open>while retries < MAX_RETRIES and data is None\<close> loop; the result says whether
  \<open>asin_found\<close> was set.\<close>

function retry_loop :: "web \<Rightarrow> pystr \<Rightarrow> target \<Rightarrow> nat \<Rightarrow> run_state \<Rightarrow> bool \<times> run_state" where
  "retry_loop w asin t retries st =
     (if retries < MAX_RETRIES then
        (let st1 = st\<lparr>trace := trace st @ [Scrape asin (fst t)], requests := requests st + 1\<rparr> in
         case w (requests st) asin t of
           Page ext offers \<Rightarrow>
             (True, st1\<lparr>all_main := all_main st1 @ [product_data asin (fst t) ext],
                        all_buybox := all_buybox st1 @ map (offer_data asin (fst t)) offers\<rparr>)
         | _ \<Rightarrow>
             (if retries + 1 < MAX_RETRIES
              then retry_loop w asin t (retries + 1) (st1\<lparr>trace := trace st1 @ [Sleep 3]\<rparr>)
              else retry_loop w asin t (retries + 1) st1))
      else (False, st))"
  by pat_completeness auto
termination
  by (relation "measure (\<lambda>(w, asin, t, retries, st). MAX_RETRIES - retries)") auto

declare retry_loop.simps [simp del]

definition not_found_row :: "pystr \<Rightarrow> row" where
  "not_found_row asin =
     [(''ASIN'', asin), (''Marketplace'', NA), (''Product Title'', ascii ''Not Found''),
      (''Rating'', NA), (''Total Reviews'', NA), (''Social Bought'', NA),
      (''Amazons_Choice_Text'', ascii ''unavailable''),
      (''Deal_Badge_Text'', ascii ''unavailable''),
      (''Best_Seller_Text'', ascii ''unavailable''),
      (''Discount %'', NA),
      (''Offer Price'', NA), (''Price per Unit'', NA), (''MRP'', NA), (''Brand'', NA),
      (''Model Number'', NA),
      (''Country of Origin'', NA), (''Customer Reviews'', NA), (''Best Sellers Rank'', NA),
      (''Manufacturer'', NA), (''Packer'', NA), (''Availability'', NA),
      (''Delivery info'', NA), (''Ships from'', NA), (''Sold by'', NA), (''Gift options'', NA)]"

definition fetch_one :: "web \<Rightarrow> target list \<Rightarrow> pystr \<Rightarrow> run_state \<Rightarrow> pyerror + run_state" where
  "fetch_one w targets asin st =
     (case for_targets None targets of
        None \<Rightarrow> Inl UnboundLocalError
      | Some t \<Rightarrow>
          (case retry_loop w asin t 0 st of
             (True, st') \<Rightarrow> Inr st'
           | (False, st') \<Rightarrow> Inr (st'\<lparr>all_main := all_main st' @ [not_found_row asin]\<rparr>)))"

fun fetch_all :: "web \<Rightarrow> target list \<Rightarrow> pystr list \<Rightarrow> run_state \<Rightarrow> pyerror + run_state" where
  "fetch_all w targets [] st = Inr st"
| "fetch_all w targets (asin # rest) st =
     (case fetch_one w targets asin st of
        Inl e \<Rightarrow> Inl e
      | Inr st' \<Rightarrow> fetch_all w targets rest st')"

section \<open>Tables (pandas)\<close>

text \<open>
  A \<open>DataFrame\<close> is its column labels and, per row, one cell per column.
  \<open>pd.DataFrame(records)\<close> takes the columns from the keys of the records in first-seen
  order and leaves a cell \<open>NaN\<close> where a record has no such key;
  \<open>reindex(columns=cols, fill_value=v)\<close> keeps the cells of the labels the frame has and
  fills a column it does not have with \<open>v\<close>.
\<close>

record frame =
  columns :: "string list"
  cells :: "cell list list"

fun first_seen :: "'a list \<Rightarrow> 'a list" where
  "first_seen [] = []"
| "first_seen (x # xs) = x # first_seen (filter (\<lambda>y. y \<noteq> x) xs)"

definition DataFrame :: "row list \<Rightarrow> frame" where
  "DataFrame recs =
     (let cols = first_seen (concat (map (map fst) recs)) in
      \<lparr>columns = cols,
       cells = map (\<lambda>r. map (\<lambda>c. case map_of r c of Some v \<Rightarrow> Str v | None \<Rightarrow> NaN) cols) recs\<rparr>)"

definition empty_frame :: "string list \<Rightarrow> frame" where
  "empty_frame cols = \<lparr>columns = cols, cells = []\<rparr>"

definition reindex :: "frame \<Rightarrow> string list \<Rightarrow> pystr \<Rightarrow> frame" where
  "reindex df cols fill_value =
     \<lparr>columns = cols,
      cells = map (\<lambda>r. map (\<lambda>c. case map_of (zip (columns df) r) c of
                                   Some v \<Rightarrow> v
                                 | None \<Rightarrow> Str fill_value) cols) (cells df)\<rparr>"

section \<open>The products workbook (scraper\_products.py)\<close>

definition final_columns :: "string list" where
  "final_columns =
     [''ASIN'', ''Marketplace'', ''Product Title'', ''Rating'', ''Total Reviews'',
      ''Social Bought'',
      ''Amazons_Choice_Text'', ''Deal_Badge_Text'', ''Best_Seller_Text'',
      ''Discount %'', ''Offer Price'', ''Price per Unit'',
      ''MRP'', ''Brand'', ''Model Number'',
      ''Country of Origin'', ''Customer Reviews'', ''Best Sellers Rank'',
      ''Manufacturer'', ''Packer'', ''Availability'', ''Delivery info'',
      ''Ships from'', ''Sold by'', ''Gift options'']"

definition final_cols :: "string list" where
  "final_cols =
     [''ASIN'', ''Sold By'', ''Marketplace'',
      ''Offer Price'', ''Discount %'', ''MRP'',
      ''Ships From'', ''Delivery Info'', ''Condition'',
      ''Rating'', ''Seller Performance'']"

record workbook =
  Products :: frame
  OtherSellers :: frame

definition write_workbook :: "run_state \<Rightarrow> workbook" where
  "write_workbook st =
     \<lparr>Products = reindex (DataFrame (all_main st)) final_columns NA,
      OtherSellers =
        (if all_buybox st \<noteq> [] then reindex (DataFrame (all_buybox st)) final_cols NA
         else empty_frame final_cols)\<rparr>"

text \<open>\<open>asin_list\<close> of \<open>run_products_scraper\<close> and of \<open>run_competitor_scraper\<close>.\<close>

definition asin_list :: "pystr \<Rightarrow> pystr list" where
  "asin_list asin_input =
     map py_strip (filter (\<lambda>a. py_strip a \<noteq> []) (py_split (replace_comma asin_input)))"

definition init_state :: run_state where
  "init_state = \<lparr>all_main = [], all_buybox = [], trace = [], requests = 0\<rparr>"

text \<open>\<open>run_products_scraper\<close>: the workbook written, with the state the loop ended in
  (the result lists and the requests made).\<close>

definition run_products_scraper ::
  "ucd \<Rightarrow> web \<Rightarrow> pystr \<Rightarrow> pystr option \<Rightarrow> pyerror + (workbook \<times> run_state)" where
  "run_products_scraper U w asin_input marketplace =
     (case fetch_all w (specific_marketplaces U marketplace) (asin_list asin_input) init_state of
        Inl e \<Rightarrow> Inl e
      | Inr st \<Rightarrow> Inr (write_workbook st, st))"

section \<open>The competitor route: identifiers handed to the product fetch (app.py)\<close>

text \<open>\<open>df[c]\<close>, the cells of one column.  The source reads a column only behind a test that
  the frame has the label (a label it has not raises \<open>KeyError\<close>, the error value).\<close>

definition column :: "frame \<Rightarrow> string \<Rightarrow> pyerror + cell list" where
  "column df c =
     (if c \<in> set (columns df)
      then Inr (map (\<lambda>r. case map_of (zip (columns df) r) c of Some v \<Rightarrow> v | None \<Rightarrow> NaN) (cells df))
      else Inl KeyError)"

text \<open>Step 2 of \<open>run_competitor\<close>: \<open>seed_asins\<close> from the form field, \<open>comp_asins\<close> from
  the \<open>Competitor_ASIN\<close> column (\<open>dropna().astype(str).str.upper().str.strip()\<close>), both
  filtered by the identifier pattern, and \<open>asin_union = sorted(set(..) | set(..))\<close>.\<close>

definition seed_asins_of :: "ucd \<Rightarrow> pystr \<Rightarrow> pystr list" where
  "seed_asins_of U seed_asins_raw =
     filter fullmatch_asin
       (map (\<lambda>a. py_upper U (py_strip a))
          (filter (\<lambda>a. py_strip a \<noteq> []) (py_split (replace_comma seed_asins_raw))))"

definition dropna :: "cell list \<Rightarrow> pystr list" where
  "dropna col = concat (map (\<lambda>c. case c of NaN \<Rightarrow> [] | Str s \<Rightarrow> [s]) col)"

definition comp_asins_of :: "ucd \<Rightarrow> cell list \<Rightarrow> pystr list" where
  "comp_asins_of U col = filter fullmatch_asin (map (\<lambda>s. py_strip (py_upper U s)) (dropna col))"

definition asin_union :: "ucd \<Rightarrow> pystr \<Rightarrow> cell list \<Rightarrow> pystr list" where
  "asin_union U seed_asins_raw col = sort (remdups (seed_asins_of U seed_asins_raw @ comp_asins_of U col))"

text \<open>
  The working list of the product fetch that the route starts: none when the sheet lacks
  the column (the route raises \<open>RuntimeError\<close> into its own handler) or when the union is
  empty (the route returns before step 3); otherwise \<open>run_products_scraper\<close> splits
  \<open>" ".join(asin_union)\<close> again.
\<close>

definition route_fetch_list :: "ucd \<Rightarrow> pystr \<Rightarrow> frame \<Rightarrow> pyerror + pystr list" where
  "route_fetch_list U seed_asins_raw comp_df =
     (case column comp_df ''Competitor_ASIN'' of
        Inl e \<Rightarrow> Inl RuntimeError
      | Inr col \<Rightarrow>
          (let u = asin_union U seed_asins_raw col in
           if u = [] then Inr [] else Inr (asin_list (py_join u))))"

section \<open>The search map and the \<open>Search_ASIN\<close> column (app.py)\<close>

text \<open>\<open>_build_search_map_from_comp_df\<close>.  \<open>dict(zip(keys, values))\<close> keeps the last value
  of a repeated key.\<close>

definition build_search_map_from_comp_df :: "ucd \<Rightarrow> frame \<Rightarrow> (pystr \<rightharpoonup> pystr)" where
  "build_search_map_from_comp_df U comp_df =
     (case (column comp_df ''Competitor_ASIN'', column comp_df ''Search_ASIN'') of
        (Inr comp_col, Inr search_col) \<Rightarrow>
          map_of (rev (filter (\<lambda>cs. fst cs \<noteq> [] \<and> snd cs \<noteq> [])
                         (zip (map (norm_asin U) comp_col) (map (norm_asin U) search_col))))
      | _ \<Rightarrow> Map.empty)"

text \<open>\<open>astype(str)\<close> of a cell: \<open>str(nan)\<close> is \<open>nan\<close>.\<close>

definition astype_str :: "cell \<Rightarrow> pystr" where
  "astype_str c = (case c of Str s \<Rightarrow> s | NaN \<Rightarrow> ascii ''nan'')"

text \<open>One entry of the list comprehension in \<open>_attach\<close>:
  \<open>m if pd.notna(m) and str(m) != "" else (a if a in seed_set else pd.NA)\<close>, where
  \<open>a\<close> is the normalised identifier of the row and \<open>m\<close> its image under the map.\<close>

definition search_asin_cell :: "ucd \<Rightarrow> (pystr \<rightharpoonup> pystr) \<Rightarrow> pystr list \<Rightarrow> cell \<Rightarrow> cell" where
  "search_asin_cell U search_map seed_asins c =
     (let a = norm_asin U (Str (astype_str c)) in
      case search_map a of
        Some m \<Rightarrow> if m \<noteq> [] then Str m else (if a \<in> set seed_asins then Str a else NaN)
      | None \<Rightarrow> if a \<in> set seed_asins then Str a else NaN)"

text \<open>\<open>df[c] = values\<close>: an existing column is overwritten in place, a new one is appended
  last.\<close>

definition set_column :: "frame \<Rightarrow> string \<Rightarrow> cell list \<Rightarrow> frame" where
  "set_column df c vs =
     (if c \<in> set (columns df)
      then \<lparr>columns = columns df,
            cells = map (\<lambda>rv. map (\<lambda>kx. if fst kx = c then snd rv else snd kx)
                                   (zip (columns df) (fst rv))) (zip (cells df) vs)\<rparr>
      else \<lparr>columns = columns df @ [c],
            cells = map (\<lambda>rv. fst rv @ [snd rv]) (zip (cells df) vs)\<rparr>)"

text \<open>\<open>df[cols]\<close> for labels the frame has.\<close>

definition select_columns :: "frame \<Rightarrow> string list \<Rightarrow> frame" where
  "select_columns df cols =
     \<lparr>columns = cols,
      cells = map (\<lambda>r. map (\<lambda>c. case map_of (zip (columns df) r) c of Some v \<Rightarrow> v | None \<Rightarrow> NaN) cols)
                 (cells df)\<rparr>"

definition ensure_first_column :: "frame \<Rightarrow> string \<Rightarrow> frame" where
  "ensure_first_column df first_col =
     (let df1 = (if first_col \<notin> set (columns df)
                 then set_column df first_col (replicate (length (cells df)) NaN)
                 else df)
      in select_columns df1 (first_col # filter (\<lambda>c. c \<noteq> first_col) (columns df1)))"

text \<open>\<open>_attach\<close>, for a frame (the callers never pass \<open>None\<close>).\<close>

definition attach :: "ucd \<Rightarrow> (pystr \<rightharpoonup> pystr) \<Rightarrow> pystr list \<Rightarrow> frame \<Rightarrow> frame" where
  "attach U search_map seed_asins df =
     (let df1 =
        (case column df ''ASIN'' of
           Inr asins \<Rightarrow> set_column df ''Search_ASIN'' (map (search_asin_cell U search_map seed_asins) asins)
         | Inl e \<Rightarrow> set_column df ''Search_ASIN'' (replicate (length (cells df)) NaN))
      in ensure_first_column df1 ''Search_ASIN'')"

definition add_search_asin_to_amazon_frames ::
  "ucd \<Rightarrow> frame \<Rightarrow> frame \<Rightarrow> (pystr \<rightharpoonup> pystr) \<Rightarrow> pystr list \<Rightarrow> frame \<times> frame" where
  "add_search_asin_to_amazon_frames U df_products df_sellers search_map seed_asins =
     (attach U search_map seed_asins df_products, attach U search_map seed_asins df_sellers)"

text \<open>A frame as pandas reads it from a sheet: distinct labels, one cell per label in
  every row.\<close>

definition wf_frame :: "frame \<Rightarrow> bool" where
  "wf_frame df \<longleftrightarrow> distinct (columns df) \<and> list_all (\<lambda>r. length r = length (columns df)) (cells df)"

section \<open>Availability extraction (scraper\_products.py)\<close>

text \<open>
  The patterns that \<open>_extract_availability_exact\<close> hands to \<open>re.search\<close> are built from
  literals, \<open>\s+\<close>, \<open>\d+\<close>, concatenation and one optional group.  \<open>rx_rests\<close> lists,
  for a text, what is left of it after each way of matching the pattern at its start, in
  the order in which the backtracking matcher of \<open>re\<close> finds them (greedy first); the
  match that \<open>re\<close> reports is the first one.
\<close>

datatype rx =
    Lit pystr
  | SpacePlus
  | DigitPlus
  | Then rx rx
  | Maybe rx

text \<open>
  One literal character of a pattern against one code point of the text under \<open>re.I\<close>.
  The literals of this program are lower-case ASCII letters and the space; a letter
  matches itself and its capital, and \<open>i\<close>, \<open>s\<close>, \<open>k\<close> also match the four non-ASCII
  code points that \<open>re\<close> folds onto them (U+0130, U+0131, U+017F, U+212A).
\<close>

definition ci_char :: "codepoint \<Rightarrow> codepoint \<Rightarrow> bool" where
  "ci_char p c \<longleftrightarrow>
     c = p \<or> (97 \<le> p \<and> p \<le> 122 \<and> c + 32 = p) \<or>
     (p = 105 \<and> (c = 304 \<or> c = 305)) \<or> (p = 115 \<and> c = 383) \<or> (p = 107 \<and> c = 8490)"

text \<open>\<open>\d\<close> on a \<open>str\<close>: a decimal digit of any script.\<close>

definition is_digit :: "ucd \<Rightarrow> codepoint \<Rightarrow> bool" where
  "is_digit U c \<longleftrightarrow> (48 \<le> c \<and> c \<le> 57) \<or> (128 \<le> c \<and> uc_digit U c)"

fun lit_rest :: "pystr \<Rightarrow> pystr \<Rightarrow> pystr option" where
  "lit_rest [] s = Some s"
| "lit_rest (p # ps) [] = None"
| "lit_rest (p # ps) (c # cs) = (if ci_char p c then lit_rest ps cs else None)"

text \<open>A greedy \<open>+\<close> over a character class: the longest run first, then shorter ones.\<close>

definition plus_rests :: "(codepoint \<Rightarrow> bool) \<Rightarrow> pystr \<Rightarrow> pystr list" where
  "plus_rests P s = map (\<lambda>k. drop k s) (rev [1..<Suc (length (takeWhile P s))])"

fun rx_rests :: "ucd \<Rightarrow> rx \<Rightarrow> pystr \<Rightarrow> pystr list" where
  "rx_rests U (Lit l) s = (case lit_rest l s of Some r \<Rightarrow> [r] | None \<Rightarrow> [])"
| "rx_rests U SpacePlus s = plus_rests isspace s"
| "rx_rests U DigitPlus s = plus_rests (is_digit U) s"
| "rx_rests U (Then a b) s = concat (map (rx_rests U b) (rx_rests U a s))"
| "rx_rests U (Maybe a) s = rx_rests U a s @ [s]"

text \<open>\<open>re.search(pat, s).span()\<close>: the leftmost start at which the pattern matches, with
  the end of the first match found there.  The second argument counts the code points
  already passed.\<close>

fun search_from :: "ucd \<Rightarrow> rx \<Rightarrow> nat \<Rightarrow> pystr \<Rightarrow> (nat \<times> nat) option" where
  "search_from U r i [] =
     (case rx_rests U r [] of rest # others \<Rightarrow> Some (i, i) | [] \<Rightarrow> None)"
| "search_from U r i (c # cs) =
     (case rx_rests U r (c # cs) of
        rest # others \<Rightarrow> Some (i, i + (length (c # cs) - length rest))
      | [] \<Rightarrow> search_from U r (Suc i) cs)"

definition re_search :: "ucd \<Rightarrow> rx \<Rightarrow> pystr \<Rightarrow> (nat \<times> nat) option" where
  "re_search U r s = search_from U r 0 s"

text \<open>The slice \<open>s[i:j]\<close> for \<open>0 \<le> i \<le> j\<close>; Python clips it to the string.\<close>

definition slice :: "pystr \<Rightarrow> nat \<Rightarrow> nat \<Rightarrow> pystr" where
  "slice s i j = take (j - i) (drop i s)"

text \<open>\<open>re.sub(r"[.\s]+$", "", phrase)\<close>: the trailing run of dots and white space goes.\<close>

definition rstrip_dots :: "pystr \<Rightarrow> pystr" where
  "rstrip_dots s = rev (dropWhile (\<lambda>c. c = 46 \<or> isspace c) (rev s))"

definition selectors :: "string list" where
  "selectors =
     [''#availabilityInsideBuyBox_feature_div span'',
      ''#availability span'',
      ''#availabilityInsideBuyBox_feature_div'',
      ''#availability'']"

definition pat_unavailable :: rx where
  "pat_unavailable = Lit (ascii ''currently unavailable'')"

definition pat_out_of_stock :: rx where
  "pat_out_of_stock = Lit (ascii ''out of stock'')"

definition pat_in_stock :: rx where
  "pat_in_stock = Lit (ascii ''in stock'')"

text \<open>\<open>only\s+\d+\s+left\<close>, and with its optional tail \<open>(?:\s+in\s+stock)?\<close>.\<close>

definition pat_only_left :: rx where
  "pat_only_left =
     Then (Lit (ascii ''only'')) (Then SpacePlus (Then DigitPlus (Then SpacePlus (Lit (ascii ''left'')))))"

definition pat_only_left_in_stock :: rx where
  "pat_only_left_in_stock =
     Then pat_only_left
       (Maybe (Then SpacePlus (Then (Lit (ascii ''in'')) (Then SpacePlus (Lit (ascii ''stock''))))))"

definition patterns :: "rx list" where
  "patterns = [pat_unavailable, pat_out_of_stock, pat_only_left_in_stock, pat_in_stock]"

text \<open>The chain of tests on the phrase cut out of the text (lines 186 to 195).
  \<open>re.search(r"\d+", phrase).group(0)\<close> raises \<open>AttributeError\<close> where nothing matches.\<close>

definition classify :: "ucd \<Rightarrow> pystr \<Rightarrow> pyerror + pystr option" where
  "classify U phrase =
     (if re_search U pat_only_left phrase \<noteq> None then
        (case re_search U DigitPlus phrase of
           None \<Rightarrow> Inl AttributeError
         | Some (i, j) \<Rightarrow> Inr (Some (ascii ''Only '' @ slice phrase i j @ ascii '' left in stock'')))
      else if re_search U pat_unavailable phrase \<noteq> None then Inr (Some (ascii ''Currently unavailable''))
      else if re_search U pat_out_of_stock phrase \<noteq> None then Inr (Some (ascii ''Out of stock''))
      else if re_search U pat_in_stock phrase \<noteq> None then Inr (Some (ascii ''In stock''))
      else Inr (Some phrase))"

text \<open>The loop \<open>for pat in patterns\<close> of \<open>_match_phrase\<close>: the pattern is searched in
  \<open>low\<close>, and the span found there is cut out of \<open>text\<close>.\<close>

fun match_patterns :: "ucd \<Rightarrow> pystr \<Rightarrow> pystr \<Rightarrow> rx list \<Rightarrow> pyerror + pystr option" where
  "match_patterns U txt low [] = Inr None"
| "match_patterns U txt low (pat # pats) =
     (case re_search U pat low of
        Some (i, j) \<Rightarrow> classify U (rstrip_dots (py_strip (slice txt i j)))
      | None \<Rightarrow> match_patterns U txt low pats)"

definition match_phrase :: "ucd \<Rightarrow> pystr \<Rightarrow> pyerror + pystr option" where
  "match_phrase U src_text =
     (if src_text = [] then Inr None
      else (let txt = py_join (py_split src_text); low = py_lower U txt
            in match_patterns U txt low patterns))"

text \<open>
  The document as the function reads it: for a selector, the text
  \<open>get_text(" ", strip=True)\<close> of the first node it selects, if there is one, and the text
  of the whole page.
\<close>

record document =
  node_text :: "string \<Rightarrow> pystr option"
  page_text :: pystr

fun try_selectors :: "ucd \<Rightarrow> document \<Rightarrow> string list \<Rightarrow> pyerror + pystr option" where
  "try_selectors U doc [] = match_phrase U (page_text doc)"
| "try_selectors U doc (sel # sels) =
     (case node_text doc sel of
        None \<Rightarrow> try_selectors U doc sels
      | Some t \<Rightarrow>
          (case match_phrase U t of
             Inl e \<Rightarrow> Inl e
           | Inr None \<Rightarrow> try_selectors U doc sels
           | Inr (Some phrase) \<Rightarrow>
               if phrase \<noteq> [] then Inr (Some phrase) else try_selectors U doc sels))"

definition extract_availability_exact :: "ucd \<Rightarrow> document \<Rightarrow> pyerror + pystr option" where
  "extract_availability_exact U doc = try_selectors U doc selectors"

text \<open>The four canonical phrases of the docstring, \<open>N\<close> a non-empty run of digits.\<close>

definition canonical :: "ucd \<Rightarrow> pystr \<Rightarrow> bool" where
  "canonical U p \<longleftrightarrow>
     p = ascii ''In stock'' \<or> p = ascii ''Out of stock'' \<or> p = ascii ''Currently unavailable'' \<or>
     (\<exists>n. n \<noteq> [] \<and> list_all (is_digit U) n \<and> p = ascii ''Only '' @ n @ ascii '' left in stock'')"

text \<open>A page whose only text is \<open>I In stock\<close> with a capital I with dot above (U+0130), in
  no availability node; and pages with the texts of the examples of the specification.\<close>

definition dotted_page :: document where
  "dotted_page = \<lparr>node_text = (\<lambda>sel. None), page_text = 304 # ascii '' In stock''\<rparr>"

definition page_of :: "pystr \<Rightarrow> document" where
  "page_of t = \<lparr>node_text = (\<lambda>sel. None), page_text = t\<rparr>"

section \<open>Competitor discovery (scraper\_competitor.py)\<close>

definition marketplace_map :: "(pystr \<times> pystr) list" where
  "marketplace_map =
     [(ascii ''india'', ascii ''amazon.in''), (ascii ''in'', ascii ''amazon.in''),
      (ascii ''us'', ascii ''amazon.com''), (ascii ''usa'', ascii ''amazon.com''),
      (ascii ''america'', ascii ''amazon.com''),
      (ascii ''uk'', ascii ''amazon.co.uk''), (ascii ''united kingdom'', ascii ''amazon.co.uk''),
      (ascii ''de'', ascii ''amazon.de''), (ascii ''germany'', ascii ''amazon.de''),
      (ascii ''fr'', ascii ''amazon.fr''), (ascii ''france'', ascii ''amazon.fr''),
      (ascii ''it'', ascii ''amazon.it''), (ascii ''italy'', ascii ''amazon.it''),
      (ascii ''es'', ascii ''amazon.es''), (ascii ''spain'', ascii ''amazon.es''),
      (ascii ''ca'', ascii ''amazon.ca''), (ascii ''canada'', ascii ''amazon.ca''),
      (ascii ''mx'', ascii ''amazon.com.mx''), (ascii ''mexico'', ascii ''amazon.com.mx''),
      (ascii ''nl'', ascii ''amazon.nl''), (ascii ''netherlands'', ascii ''amazon.nl''),
      (ascii ''jp'', ascii ''amazon.co.jp''), (ascii ''japan'', ascii ''amazon.co.jp''),
      (ascii ''au'', ascii ''amazon.com.au''), (ascii ''australia'', ascii ''amazon.com.au''),
      (ascii ''ae'', ascii ''amazon.ae''), (ascii ''uae'', ascii ''amazon.ae''),
      (ascii ''br'', ascii ''amazon.com.br''), (ascii ''brazil'', ascii ''amazon.com.br''),
      (ascii ''sa'', ascii ''amazon.sa''), (ascii ''saudi'', ascii ''amazon.sa'')]"

text \<open>\<open>_load_h10_creds\<close>: \<open>email or os.getenv("H10_EMAIL")\<close>, likewise the password;
  \<open>None\<close> and the empty string are false.\<close>

definition truthy :: "pystr option \<Rightarrow> bool" where
  "truthy x = (case x of None \<Rightarrow> False | Some s \<Rightarrow> s \<noteq> [])"

definition load_h10_creds ::
  "pystr option \<Rightarrow> pystr option \<Rightarrow> pystr option \<Rightarrow> pystr option \<Rightarrow> pyerror + (pystr \<times> pystr)" where
  "load_h10_creds email password env_email env_password =
     (let e = (if truthy email then email else env_email);
          p = (if truthy password then password else env_password)
      in case (e, p) of
           (Some e', Some p') \<Rightarrow> if e' = [] \<or> p' = [] then Inl RuntimeError else Inr (e', p')
         | _ \<Rightarrow> Inl RuntimeError)"

text \<open>Lines 362 and 363: \<open>marketplace_map.get(marketplace_input, marketplace_input_raw.strip())\<close>
  with \<open>marketplace_input = (marketplace_input_raw or "").strip().lower()\<close>.\<close>

definition marketplace_value :: "ucd \<Rightarrow> pystr \<Rightarrow> pystr" where
  "marketplace_value U marketplace_input_raw =
     (case map_of marketplace_map (py_lower U (py_strip marketplace_input_raw)) of
        Some d \<Rightarrow> d
      | None \<Rightarrow> py_strip marketplace_input_raw)"

text \<open>
  The browser is the environment of the run.  What it answers is given per block of
  driver calls as the exception the block raises, if any; a block is a stretch of the
  source under one \<open>try\<close>, or between two.  One record holds the answers during one
  iteration of the loop over the identifiers.
\<close>

text \<open>A result card, after the selector ladders of lines 613 to 644: title, identifier and
  flag as text (empty where nothing was found), and the \<open>href\<close> of the link node if there
  is one.\<close>

record card =
  card_title :: pystr
  card_asin :: pystr
  card_link :: "pystr option"
  card_flag :: pystr

record iteration =
  soft_reset_ok :: bool
  reload_after_reset :: "pyerror option"
  enter_asin :: "pyerror option"
  first_click :: "pyerror option"
  reload_after_click :: "pyerror option"
  retry_click :: "pyerror option"
  first_wait :: "pyerror option"
  body_has_current :: bool
  reload_after_wait :: "pyerror option"
  retry_wait :: "pyerror option"
  presence_wait :: "pyerror option"
  card_counts :: "nat \<Rightarrow> pyerror + nat"
  fetched_cards :: "pyerror + (pyerror + card) list"

text \<open>
  The fields, by the lines of \<open>run_competitor_scraper\<close> they answer:
  \<open>soft_reset_ok\<close> the result of \<open>_soft_reset_cerebro\<close> (474), which catches its own
  exceptions; \<open>reload_after_reset\<close> the hard reload of line 477; \<open>enter_asin\<close> lines 480 to
  493 (locating the input box and typing), which no \<open>try\<close> guards; \<open>first_click\<close> lines
  497 to 502; \<open>reload_after_click\<close> line 505; \<open>retry_click\<close> lines 508 to 519;
  \<open>first_wait\<close> line 526; \<open>body_has_current\<close> lines 530 to 536 (false where the script
  raises); \<open>reload_after_wait\<close> line 540; \<open>retry_wait\<close> lines 543 to 555;
  \<open>presence_wait\<close> line 564; \<open>card_counts k\<close> the \<open>k\<close>-th poll of the cards in the
  reveal loop (574); \<open>fetched_cards\<close> the wait of line 599, giving an exception or the
  cards located, each of which is scraped by lines 607 to 644 into its texts or raises:
  \<open>card.text\<close> on lines 620 and 627 is read inside an \<open>except\<close> handler, so what it raises
  is caught nowhere.
\<close>

record browser =
  env_email :: "pystr option"
  env_password :: "pystr option"
  start_chrome :: "pyerror option"
  sign_in :: "pyerror option"
  open_cerebro :: "pyerror option"
  select_marketplace :: "pyerror option"
  answers :: "nat \<Rightarrow> iteration"

text \<open>\<open>start_chrome\<close>: lines 382 to 389; \<open>sign_in\<close>: the login block 390 to 441, which
  quits the driver and re-raises; \<open>open_cerebro\<close>: lines 445 to 451 (an exception other than
  the caught page-load timeout, or one of the refresh); \<open>select_marketplace\<close>: lines 456 to
  464, which quits and re-raises; \<open>answers i\<close>: the iteration of the \<open>i\<close>-th identifier.\<close>

datatype cevent =
    StartChrome | SignIn | OpenCerebro | SelectMarketplace pystr
  | SoftReset | HardReload pystr | EnterAsin pystr | ClickGetCompetitors
  | AwaitResults pystr | RevealCards nat | Quit | WriteWorkbook

record cstate =
  competitor_results :: "row list"
  events :: "cevent list"

datatype flow = Proceed cstate | Skip cstate | Abort pyerror cstate

definition logged :: "cevent list \<Rightarrow> cstate \<Rightarrow> cstate" where
  "logged evs st = st\<lparr>events := events st @ evs\<rparr>"

definition and_then :: "flow \<Rightarrow> (cstate \<Rightarrow> flow) \<Rightarrow> flow" where
  "and_then f g = (case f of Proceed st \<Rightarrow> g st | Skip st \<Rightarrow> Skip st | Abort e st \<Rightarrow> Abort e st)"

text \<open>\<open>_hard_reload_cerebro\<close>: its exceptions are caught nowhere.\<close>

definition hard_reload :: "pystr \<Rightarrow> pyerror option \<Rightarrow> cstate \<Rightarrow> flow" where
  "hard_reload domain answer st =
     (case answer of
        None \<Rightarrow> Proceed (logged [HardReload domain] st)
      | Some e \<Rightarrow> Abort e (logged [HardReload domain] st))"

text \<open>Lines 474 to 477.\<close>

definition stage_reset :: "pystr \<Rightarrow> iteration \<Rightarrow> cstate \<Rightarrow> flow" where
  "stage_reset domain a st =
     (if soft_reset_ok a then Proceed (logged [SoftReset] st)
      else hard_reload domain (reload_after_reset a) (logged [SoftReset] st))"

text \<open>Lines 480 to 493.\<close>

definition stage_enter :: "pystr \<Rightarrow> iteration \<Rightarrow> cstate \<Rightarrow> flow" where
  "stage_enter asin a st =
     (case enter_asin a of
        None \<Rightarrow> Proceed (logged [EnterAsin asin] st)
      | Some e \<Rightarrow> Abort e (logged [EnterAsin asin] st))"

text \<open>Lines 496 to 522: \<open>except TimeoutException\<close> around the first click, then the hard
  reload outside any \<open>try\<close>, then the retry under \<open>except Exception: continue\<close>.\<close>

definition stage_click :: "pystr \<Rightarrow> pystr \<Rightarrow> iteration \<Rightarrow> cstate \<Rightarrow> flow" where
  "stage_click domain asin a st =
     (case first_click a of
        None \<Rightarrow> Proceed (logged [ClickGetCompetitors] st)
      | Some e \<Rightarrow>
          if e = TimeoutException then
            and_then (hard_reload domain (reload_after_click a) (logged [ClickGetCompetitors] st))
              (\<lambda>st'. case retry_click a of
                        None \<Rightarrow> Proceed (logged [EnterAsin asin, ClickGetCompetitors] st')
                      | Some e' \<Rightarrow> Skip (logged [EnterAsin asin, ClickGetCompetitors] st'))
          else Abort e (logged [ClickGetCompetitors] st))"

text \<open>Lines 525 to 560.\<close>

definition stage_wait :: "pystr \<Rightarrow> pystr \<Rightarrow> iteration \<Rightarrow> cstate \<Rightarrow> flow" where
  "stage_wait domain asin a st =
     (case first_wait a of
        None \<Rightarrow> Proceed (logged [AwaitResults asin] st)
      | Some e \<Rightarrow>
          if e = TimeoutException then
            (if body_has_current a then Proceed (logged [AwaitResults asin] st)
             else and_then (hard_reload domain (reload_after_wait a) (logged [AwaitResults asin] st))
                    (\<lambda>st'. case retry_wait a of
                              None \<Rightarrow> Proceed (logged [EnterAsin asin, ClickGetCompetitors, AwaitResults asin] st')
                            | Some e' \<Rightarrow> Skip (logged [EnterAsin asin, ClickGetCompetitors, AwaitResults asin] st')))
          else Abort e (logged [AwaitResults asin] st))"

text \<open>
  The reveal loop, lines 570 to 595: \<open>while True\<close> with a \<open>continue\<close> while no card is
  there and a \<open>break\<close> once the count has stalled \<open>max_stall_loops\<close> times.  Nothing
  bounds it; where it does not end the function has no value.  Its result is the number
  of polls made.
\<close>

definition max_stall_loops :: nat where
  "max_stall_loops = 10"

partial_function (option) reveal ::
  "(nat \<Rightarrow> pyerror + nat) \<Rightarrow> nat \<Rightarrow> int \<Rightarrow> nat \<Rightarrow> (pyerror + nat) option" where
  "reveal counts k prev_count stall_loops =
     (case counts k of
        Inl e \<Rightarrow> Some (Inl e)
      | Inr count_now \<Rightarrow>
          if count_now = 0 then reveal counts (Suc k) prev_count stall_loops
          else if int count_now = prev_count then
            (if Suc stall_loops \<ge> max_stall_loops then Some (Inr (Suc k))
             else reveal counts (Suc k) prev_count (Suc stall_loops))
          else
            (if 0 \<ge> max_stall_loops then Some (Inr (Suc k))
             else reveal counts (Suc k) (int count_now) 0))"

text \<open>The record appended for a card (lines 636, 637 and 646 to 652).\<close>

definition card_row :: "pystr \<Rightarrow> pystr \<Rightarrow> card \<Rightarrow> row" where
  "card_row domain asin c =
     [(''Search_ASIN'', asin),
      (''Competitor_ASIN'', card_asin c),
      (''Title'', card_title c),
      (''Marketplace'', card_flag c),
      (''Product_Link'',
         (case card_link c of
            Some href \<Rightarrow> py_strip href
          | None \<Rightarrow>
              if card_asin c \<noteq> [] \<and> domain \<noteq> []
              then ascii ''https://'' @ domain @ ascii ''/dp/'' @ card_asin c
              else []))]"

text \<open>The loop over the cards, lines 606 to 652: a record is appended for each card until
  one raises.\<close>

fun scrape_cards :: "pystr \<Rightarrow> pystr \<Rightarrow> (pyerror + card) list \<Rightarrow> row list \<Rightarrow> pyerror \<times> row list + row list" where
  "scrape_cards domain asin [] results = Inr results"
| "scrape_cards domain asin (Inl e # cards) results = Inl (e, results)"
| "scrape_cards domain asin (Inr c # cards) results =
     scrape_cards domain asin cards (results @ [card_row domain asin c])"

text \<open>Lines 562 to 657.  A \<open>TimeoutException\<close> of the presence wait (564) or of the wait
  for the cards (599) is caught, the latter leaving no card to scrape; the closing soft
  reset raises nothing.\<close>

definition stage_harvest :: "pystr \<Rightarrow> pystr \<Rightarrow> iteration \<Rightarrow> cstate \<Rightarrow> flow option" where
  "stage_harvest domain asin a st =
     (if presence_wait a \<noteq> None \<and> presence_wait a \<noteq> Some TimeoutException
      then Some (Abort (case presence_wait a of Some e \<Rightarrow> e | None \<Rightarrow> TimeoutException) st)
      else
        (case reveal (card_counts a) 0 (- 1) 0 of
           None \<Rightarrow> None
         | Some (Inl e) \<Rightarrow> Some (Abort e st)
         | Some (Inr polls) \<Rightarrow>
             (case fetched_cards a of
                Inl e \<Rightarrow>
                  if e = TimeoutException then Some (Proceed (logged [RevealCards polls, SoftReset] st))
                  else Some (Abort e (logged [RevealCards polls] st))
              | Inr cards \<Rightarrow>
                  (case scrape_cards domain asin cards (competitor_results st) of
                     Inl (e, results) \<Rightarrow>
                       Some (Abort e (logged [RevealCards polls] (st\<lparr>competitor_results := results\<rparr>)))
                   | Inr results \<Rightarrow>
                       Some (Proceed (logged [RevealCards polls, SoftReset]
                                (st\<lparr>competitor_results := results\<rparr>)))))))"

definition iteration_step :: "pystr \<Rightarrow> pystr \<Rightarrow> iteration \<Rightarrow> cstate \<Rightarrow> flow option" where
  "iteration_step domain asin a st =
     (case and_then (and_then (and_then (stage_reset domain a st) (stage_enter asin a))
                      (stage_click domain asin a)) (stage_wait domain asin a) of
        Proceed st' \<Rightarrow> stage_harvest domain asin a st'
      | Skip st' \<Rightarrow> Some (Skip st')
      | Abort e st' \<Rightarrow> Some (Abort e st'))"

text \<open>\<open>for idx, asin in enumerate(asin_list, start=1)\<close>: a skipped identifier and a
  harvested one both lead to the next; an exception leaves the loop and the function.\<close>

fun scrape_loop ::
  "pystr \<Rightarrow> (nat \<Rightarrow> iteration) \<Rightarrow> nat \<Rightarrow> pystr list \<Rightarrow> cstate \<Rightarrow> (pyerror \<times> cstate + cstate) option" where
  "scrape_loop domain ans i [] st = Some (Inr st)"
| "scrape_loop domain ans i (asin # rest) st =
     (case iteration_step domain asin (ans i) st of
        None \<Rightarrow> None
      | Some (Abort e st') \<Rightarrow> Some (Inl (e, st'))
      | Some (Skip st') \<Rightarrow> scrape_loop domain ans (Suc i) rest st'
      | Some (Proceed st') \<Rightarrow> scrape_loop domain ans (Suc i) rest st')"

definition competitor_columns :: "string list" where
  "competitor_columns = [''Search_ASIN'', ''Competitor_ASIN'', ''Title'', ''Marketplace'', ''Product_Link'']"

text \<open>Lines 663 to 670: the sheet \<open>Competitors\<close>.\<close>

definition competitors_sheet :: "row list \<Rightarrow> frame" where
  "competitors_sheet rs = (if rs \<noteq> [] then DataFrame rs else empty_frame competitor_columns)"

text \<open>
  \<open>run_competitor_scraper\<close>.  The value is absent where the run does not end; otherwise
  it is the exception raised or the sheet written, each with the browser events up to
  then.
\<close>

definition run_competitor_scraper ::
  "ucd \<Rightarrow> browser \<Rightarrow> pystr option \<Rightarrow> pystr option \<Rightarrow> pystr \<Rightarrow> pystr \<Rightarrow>
     (pyerror \<times> cevent list + frame \<times> cevent list) option" where
  "run_competitor_scraper U B email password asin_input marketplace_input_raw =
     (case load_h10_creds email password (env_email B) (env_password B) of
        Inl e \<Rightarrow> Some (Inl (e, []))
      | Inr creds \<Rightarrow>
          (let domain = marketplace_value U marketplace_input_raw in
           if domain = [] then Some (Inl (ValueError, []))
           else (case start_chrome B of
                   Some e \<Rightarrow> Some (Inl (e, [StartChrome]))
                 | None \<Rightarrow>
             (case sign_in B of
                   Some e \<Rightarrow> Some (Inl (e, [StartChrome, SignIn, Quit]))
                 | None \<Rightarrow>
             (case open_cerebro B of
                   Some e \<Rightarrow> Some (Inl (e, [StartChrome, SignIn, OpenCerebro]))
                 | None \<Rightarrow>
             (case select_marketplace B of
                   Some e \<Rightarrow> Some (Inl (e, [StartChrome, SignIn, OpenCerebro, SelectMarketplace domain, Quit]))
                 | None \<Rightarrow>
             (case scrape_loop domain (answers B) 0 (asin_list asin_input)
                     \<lparr>competitor_results = [],
                      events = [StartChrome, SignIn, OpenCerebro, SelectMarketplace domain]\<rparr> of
                   None \<Rightarrow> None
                 | Some (Inl (e, st)) \<Rightarrow> Some (Inl (e, events st))
                 | Some (Inr st) \<Rightarrow>
                     Some (Inr (competitors_sheet (competitor_results st),
                                events st @ [WriteWorkbook, Quit])))))))))"

section \<open>Inputs and predicates used in the statements\<close>

text \<open>A network on which the product page exists at the first configured target,
  Amazon India, and nowhere else; and one on which no request ever yields a page.\<close>

definition india_only :: web where
  "india_only n asin t = (if fst t = ascii ''Amazon India'' then Page (\<lambda>col. NA) [] else NoData)"

definition dead_web :: web where
  "dead_web n asin t = NoData"

definition is_page :: "page_result \<Rightarrow> bool" where
  "is_page r = (case r of Page ext offers \<Rightarrow> True | _ \<Rightarrow> False)"

text \<open>``Every field carries the sentinel value'', the identifier column set aside.\<close>

definition all_sentinel :: "row \<Rightarrow> bool" where
  "all_sentinel r = list_all (\<lambda>kv. fst kv = ''ASIN'' \<or> snd kv = NA) r"

text \<open>The keys of an offer record, in the order \<open>scrape_buybox_offers\<close> writes them.\<close>

definition offer_keys :: "string list" where
  "offer_keys =
     [''ASIN'', ''Marketplace'', ''Offer Price'', ''Discount %'', ''MRP'', ''Ships From'',
      ''Sold By'', ''Delivery Info'', ''Condition'', ''Rating'', ''Seller Performance'']"

text \<open>The rule of claim C6 in its own words: the image of the normalised identifier under
  the competitor-to-seed map, else the identifier itself when it is a seed, else missing.\<close>

definition search_asin_rule :: "(pystr \<rightharpoonup> pystr) \<Rightarrow> pystr list \<Rightarrow> pystr \<Rightarrow> cell" where
  "search_asin_rule search_map seeds a =
     (case search_map a of
        Some seed \<Rightarrow> Str seed
      | None \<Rightarrow> if a \<in> set seeds then Str a else NaN)"

text \<open>The \<open>Competitors\<close> sheet of the end-to-end scenario: the seed \<open>B0ABCDEFGH\<close> found
  one competitor, \<open>B0XYZ12345\<close>.\<close>

definition scenario_competitors :: frame where
  "scenario_competitors =
     \<lparr>columns = [''Search_ASIN'', ''Competitor_ASIN'', ''Title'', ''Marketplace'', ''Product_Link''],
      cells = [[Str (ascii ''B0ABCDEFGH''), Str (ascii ''B0XYZ12345''), Str (ascii ''Steel bottle''),
                NaN, Str (ascii ''https://amazon.in/dp/B0XYZ12345'')]]\<rparr>"

text \<open>A sheet of three product rows: the seed, its competitor, and an identifier that is
  neither.\<close>

definition sample_products :: frame where
  "sample_products =
     \<lparr>columns = [''ASIN'', ''Marketplace''],
      cells = [[Str (ascii ''B0ABCDEFGH''), NaN], [Str (ascii '' b0xyz12345''), NaN],
               [Str (ascii ''B0XYZ12346''), NaN]]\<rparr>"











fun first_error :: "(pyerror + card) list \<Rightarrow> pyerror option" where
  "first_error [] = None"
| "first_error (Inl e # cards) = Some e"
| "first_error (Inr c # cards) = first_error cards"



text \<open>The marketplace domain an event carries, and the events of a finished run.\<close>

definition domain_of :: "cevent \<Rightarrow> pystr option" where
  "domain_of ev = (case ev of SelectMarketplace d \<Rightarrow> Some d | HardReload d \<Rightarrow> Some d | _ \<Rightarrow> None)"

definition events_of :: "pyerror \<times> cevent list + frame \<times> cevent list \<Rightarrow> cevent list" where
  "events_of r = (case r of Inl x \<Rightarrow> snd x | Inr y \<Rightarrow> snd y)"

text \<open>Iterations of a sample session: one in which every block succeeds and one card
  (with no link node) is found; one in which the Get Competitors control stays missing;
  one in which the input box is not found; one in which the page keeps the results of
  the identifier before.\<close>

definition one_card :: "nat \<Rightarrow> pyerror + nat" where
  "one_card k = Inr 1"

definition calm :: iteration where
  "calm =
     \<lparr>soft_reset_ok = True, reload_after_reset = None, enter_asin = None, first_click = None,
      reload_after_click = None, retry_click = None, first_wait = None, body_has_current = True,
      reload_after_wait = None, retry_wait = None, presence_wait = None,
      card_counts = one_card,
      fetched_cards = Inr [Inr \<lparr>card_title = ascii ''Steel bottle'', card_asin = ascii ''B0XYZ12345'',
                                card_link = None, card_flag = []\<rparr>]\<rparr>"

definition no_button :: iteration where
  "no_button = calm\<lparr>first_click := Some TimeoutException, retry_click := Some TimeoutException\<rparr>"

definition no_input_box :: iteration where
  "no_input_box = calm\<lparr>enter_asin := Some TimeoutException\<rparr>"

definition stale_page :: iteration where
  "stale_page =
     calm\<lparr>first_wait := Some TimeoutException, body_has_current := False,
          retry_wait := Some TimeoutException\<rparr>"





text \<open>Sessions: credentials in the environment and every session step succeeding, with
  the first identifier's iteration as given and calm ones after it; and a session with
  no credentials anywhere.\<close>

definition session :: "iteration \<Rightarrow> browser" where
  "session first =
     \<lparr>env_email = Some (ascii ''me@example.com''), env_password = Some (ascii ''secret''),
      start_chrome = None, sign_in = None, open_cerebro = None, select_marketplace = None,
      answers = (\<lambda>i. if i = 0 then first else calm)\<rparr>"

definition locked_out :: browser where
  "locked_out = (session calm)\<lparr>sign_in := Some TimeoutException\<rparr>"



definition no_credentials :: browser where
  "no_credentials = (session calm)\<lparr>env_email := None, env_password := None\<rparr>"

text \<open>The state a step ends in, and the events that carry no domain but the given one.\<close>

definition flow_state :: "flow \<Rightarrow> cstate" where
  "flow_state f = (case f of Proceed st \<Rightarrow> st | Skip st \<Rightarrow> st | Abort e st \<Rightarrow> st)"

definition only_domain :: "pystr \<Rightarrow> cevent list \<Rightarrow> bool" where
  "only_domain d evs = list_all (\<lambda>ev. domain_of ev = None \<or> domain_of ev = Some d) evs"

text \<open>A step only adds events, none of them with another domain.\<close>

definition extends :: "pystr \<Rightarrow> cstate \<Rightarrow> flow \<Rightarrow> bool" where
  "extends d st f \<longleftrightarrow> (\<exists>evs. events (flow_state f) = events st @ evs \<and> only_domain d evs)"

text \<open>\<open>str.lower\<close> on an ASCII code point, and the patterns all of whose literal characters
  are lower-case ASCII letters or spaces.\<close>

definition ascii_lower :: "codepoint \<Rightarrow> codepoint" where
  "ascii_lower c = (if 65 \<le> c \<and> c \<le> 90 then c + 32 else c)"

definition lower_char :: "codepoint \<Rightarrow> bool" where
  "lower_char p \<longleftrightarrow> (97 \<le> p \<and> p \<le> 122) \<or> p = 32"

fun lower_lits :: "rx \<Rightarrow> bool" where
  "lower_lits (Lit l) = list_all lower_char l"
| "lower_lits SpacePlus = True"
| "lower_lits DigitPlus = True"
| "lower_lits (Then a b) = (lower_lits a \<and> lower_lits b)"
| "lower_lits (Maybe a) = lower_lits a"

definition ascii_text :: "pystr \<Rightarrow> bool" where
  "ascii_text s = list_all (\<lambda>c. c < 128) s"

text \<open>Patterns whose every match begins with a letter; patterns that match no empty text;
  patterns whose every non-empty match ends with a letter.\<close>

fun starts_letter :: "rx \<Rightarrow> bool" where
  "starts_letter (Lit l) = (l \<noteq> [] \<and> 97 \<le> hd l \<and> hd l \<le> 122)"
| "starts_letter (Then a b) = starts_letter a"
| "starts_letter r = False"

fun never_empty :: "rx \<Rightarrow> bool" where
  "never_empty (Lit l) = (l \<noteq> [])"
| "never_empty SpacePlus = True"
| "never_empty DigitPlus = True"
| "never_empty (Then a b) = (never_empty a \<or> never_empty b)"
| "never_empty (Maybe a) = False"

fun ends_letter :: "rx \<Rightarrow> bool" where
  "ends_letter (Lit l) = (l = [] \<or> (97 \<le> last l \<and> last l \<le> 122))"
| "ends_letter SpacePlus = False"
| "ends_letter DigitPlus = False"
| "ends_letter (Then a b) = (ends_letter b \<and> (never_empty b \<or> ends_letter a))"
| "ends_letter (Maybe a) = ends_letter a"

section \<open>Properties\<close>

subsection \<open>Identifier normalisation\<close>

lemma asin_char_not_space: "asin_char c \<Longrightarrow> \<not> isspace c"
  by (auto simp: asin_char_def isspace_def)

lemma asin_char_upper: "asin_char c \<Longrightarrow> upper_cp U c = [c]"
  by (auto simp: asin_char_def upper_cp_def)

lemma py_upper_fixed: "list_all (\<lambda>c. upper_cp U c = [c]) s \<Longrightarrow> py_upper U s = s"
  by (induction s) (auto simp: py_upper_def)

lemma py_strip_fixed:
  assumes "s \<noteq> []" "\<not> isspace (hd s)" "\<not> isspace (last s)"
  shows "py_strip s = s"
proof -
  from assms have 1: "dropWhile isspace s = s" by (cases s) auto
  from assms have "rev s \<noteq> []" "\<not> isspace (hd (rev s))" by (auto simp: hd_rev)
  then have 2: "dropWhile isspace (rev s) = rev s" by (cases "rev s") auto
  show ?thesis by (simp add: py_strip_def 1 2)
qed

lemma fullmatch_asin_shape:
  "fullmatch_asin x \<longleftrightarrow> (\<exists>r. x = 66 # 48 # r \<and> length r = 8 \<and> list_all asin_char r)"
proof
  assume h: "fullmatch_asin x"
  then obtain a b r where x: "x = a # b # r"
    by (cases x; cases "tl x") (auto simp: fullmatch_asin_def)
  with h show "\<exists>r. x = 66 # 48 # r \<and> length r = 8 \<and> list_all asin_char r"
    by (auto simp: fullmatch_asin_def)
next
  assume "\<exists>r. x = 66 # 48 # r \<and> length r = 8 \<and> list_all asin_char r"
  then show "fullmatch_asin x" by (auto simp: fullmatch_asin_def)
qed

lemma fullmatch_asin_fixed:
  assumes "fullmatch_asin x"
  shows "py_upper U (py_strip x) = x"
proof -
  from assms obtain r where x: "x = 66 # 48 # r" and len: "length r = 8" and r: "list_all asin_char r"
    by (auto simp: fullmatch_asin_shape)
  have all: "list_all asin_char x" using r by (simp add: x asin_char_def)
  from len have "r \<noteq> []" by auto
  then have "last x = last r" by (simp add: x)
  moreover have "asin_char (last r)" using r \<open>r \<noteq> []\<close> by (simp add: list_all_iff)
  ultimately have "\<not> isspace (last x)" by (simp add: asin_char_not_space)
  moreover have "\<not> isspace (hd x)" by (simp add: x isspace_def)
  ultimately have "py_strip x = x" by (intro py_strip_fixed) (simp_all add: x)
  moreover have "py_upper U x = x"
    using all by (intro py_upper_fixed) (simp add: list_all_iff asin_char_upper)
  ultimately show ?thesis by simp
qed

lemma norm_asin_cases: "norm_asin U t = [] \<or> fullmatch_asin (norm_asin U t)"
  by (cases t) (auto simp: norm_asin_def Let_def)

lemma norm_asin_empty: "norm_asin U (Str []) = []"
  by (simp add: norm_asin_def py_strip_def py_upper_def fullmatch_asin_def)

text \<open>
  Claim C9.  For every token \<open>t\<close> (and every case table of the interpreter),
  \<open>_norm_asin\<close> is idempotent, and its result is the empty string or a token
  \<open>B0\<close> followed by exactly eight code points of \<open>A-Z0-9\<close>, which upper-casing
  leaves unchanged.
\<close>

theorem norm_asin_idempotent_valid:
  "norm_asin U (Str (norm_asin U t)) = norm_asin U t \<and>
   (norm_asin U t = [] \<or>
    (\<exists>r. norm_asin U t = 66 # 48 # r \<and> length r = 8 \<and> list_all asin_char r \<and>
         py_upper U (norm_asin U t) = norm_asin U t))"
proof (cases "norm_asin U t = []")
  case True
  then show ?thesis by (simp add: norm_asin_empty)
next
  case False
  then have fm: "fullmatch_asin (norm_asin U t)" using norm_asin_cases[of U t] by simp
  have fx: "py_upper U (py_strip (norm_asin U t)) = norm_asin U t"
    by (rule fullmatch_asin_fixed[OF fm])
  have idem: "norm_asin U (Str (norm_asin U t)) = norm_asin U t"
    using fm fx by (simp add: norm_asin_def Let_def)
  have "py_strip (norm_asin U t) = norm_asin U t"
  proof -
    obtain r where x: "norm_asin U t = 66 # 48 # r" and len: "length r = 8" and r: "list_all asin_char r"
      using fm by (auto simp: fullmatch_asin_shape)
    from len have ne: "r \<noteq> []" by auto
    have "asin_char (last r)" using r ne by (simp add: list_all_iff)
    then have "\<not> isspace (last (norm_asin U t))" using ne by (simp add: x asin_char_not_space)
    moreover have "\<not> isspace (hd (norm_asin U t))" by (simp add: x isspace_def)
    ultimately show ?thesis by (intro py_strip_fixed) (simp_all add: x)
  qed
  with fx have up: "py_upper U (norm_asin U t) = norm_asin U t" by simp
  from fm obtain r where "norm_asin U t = 66 # 48 # r" "length r = 8" "list_all asin_char r"
    by (auto simp: fullmatch_asin_shape)
  with idem up show ?thesis by auto
qed

subsection \<open>The per-identifier fetch\<close>

lemma for_targets_last: "for_targets b ts = (if ts = [] then b else Some (last ts))"
  by (induction b ts rule: for_targets.induct) auto

lemma retry_loop_rows:
  "retry_loop w asin t r st = (found, st') \<Longrightarrow>
     (found \<and> (\<exists>ext offers. all_main st' = all_main st @ [product_data asin (fst t) ext] \<and>
                 all_buybox st' = all_buybox st @ map (offer_data asin (fst t)) offers))
     \<or> (\<not> found \<and> all_main st' = all_main st \<and> all_buybox st' = all_buybox st)"
proof (induction w asin t r st rule: retry_loop.induct)
  case (1 w asin t retries st)
  show ?case
  proof (cases "retries < MAX_RETRIES")
    case False
    with "1.prems" show ?thesis by (simp add: retry_loop.simps)
  next
    case True
    show ?thesis
    proof (cases "w (requests st) asin t")
      case (Page ext offers)
      with True "1.prems" show ?thesis
        by (auto simp: retry_loop.simps Let_def)
    next
      case Raised
      with True "1.prems" "1.IH"(1,2)[OF True refl Raised] show ?thesis
        by (auto simp: retry_loop.simps[of w asin t retries st] Let_def split: if_splits)
    next
      case NoData
      with True "1.prems" "1.IH"(3,4)[OF True refl NoData] show ?thesis
        by (auto simp: retry_loop.simps[of w asin t retries st] Let_def split: if_splits)
    qed
  qed
qed

lemma retry_loop_no_page:
  "(\<And>n. \<not> is_page (w n asin t)) \<Longrightarrow> fst (retry_loop w asin t r st) = False"
proof (induction w asin t r st rule: retry_loop.induct)
  case (1 w asin t retries st)
  show ?case
  proof (cases "retries < MAX_RETRIES")
    case False
    then show ?thesis by (simp add: retry_loop.simps)
  next
    case True
    show ?thesis
    proof (cases "w (requests st) asin t")
      case (Page ext offers)
      with "1.prems"[of "requests st"] show ?thesis by (simp add: is_page_def)
    next
      case Raised
      with True "1.IH"(1,2)[OF True refl Raised] "1.prems" show ?thesis
        by (auto simp: retry_loop.simps[of w asin t retries st] Let_def split: if_splits)
    next
      case NoData
      with True "1.IH"(3,4)[OF True refl NoData] "1.prems" show ?thesis
        by (auto simp: retry_loop.simps[of w asin t retries st] Let_def split: if_splits)
    qed
  qed
qed

text \<open>Every request of the loop goes to the one target it was started with.\<close>

lemma retry_loop_trace:
  "\<exists>evs. trace (snd (retry_loop w asin t r st)) = trace st @ evs \<and>
         list_all (\<lambda>e. e = Sleep 3 \<or> e = Scrape asin (fst t)) evs"
proof (induction w asin t r st rule: retry_loop.induct)
  case (1 w asin t retries st)
  show ?case
  proof (cases "retries < MAX_RETRIES")
    case False
    then show ?thesis by (simp add: retry_loop.simps)
  next
    case True
    show ?thesis
    proof (cases "w (requests st) asin t")
      case (Page ext offers)
      with True show ?thesis by (simp add: retry_loop.simps Let_def)
    next
      case Raised
      with True "1.IH"(1,2)[OF True refl Raised] show ?thesis
        by (auto simp: retry_loop.simps[of w asin t retries st] Let_def split: if_splits)
    next
      case NoData
      with True "1.IH"(3,4)[OF True refl NoData] show ?thesis
        by (auto simp: retry_loop.simps[of w asin t retries st] Let_def split: if_splits)
    qed
  qed
qed

lemma fetch_one_trace:
  assumes "targets \<noteq> []"
  shows "\<exists>st' evs. fetch_one w targets asin st = Inr st' \<and> trace st' = trace st @ evs \<and>
           list_all (\<lambda>e. e = Sleep 3 \<or> e = Scrape asin (fst (last targets))) evs"
proof -
  obtain found st1 where r: "retry_loop w asin (last targets) 0 st = (found, st1)"
    by (cases "retry_loop w asin (last targets) 0 st")
  from retry_loop_trace[of w asin "last targets" 0 st] r
  obtain evs where "trace st1 = trace st @ evs"
    "list_all (\<lambda>e. e = Sleep 3 \<or> e = Scrape asin (fst (last targets))) evs" by auto
  with r assms show ?thesis
    by (cases found) (auto simp: fetch_one_def for_targets_last)
qed

lemma specific_marketplaces_nonempty: "specific_marketplaces U m \<noteq> []"
  by (simp add: specific_marketplaces_def MARKETPLACES_def split: option.splits)

lemma fetch_one_rows:
  assumes "targets \<noteq> []"
  shows "\<exists>st'. fetch_one w targets asin st = Inr st' \<and>
           (\<exists>r offers. all_main st' = all_main st @ [r] \<and>
              (r = not_found_row asin \<or> (\<exists>ext. r = product_data asin (fst (last targets)) ext)) \<and>
              all_buybox st' = all_buybox st @ map (offer_data asin (fst (last targets))) offers)"
proof -
  obtain found st1 where r: "retry_loop w asin (last targets) 0 st = (found, st1)"
    by (cases "retry_loop w asin (last targets) 0 st")
  show ?thesis
  proof (cases found)
    case True
    with retry_loop_rows[OF r] obtain ext offers where
      "all_main st1 = all_main st @ [product_data asin (fst (last targets)) ext]"
      "all_buybox st1 = all_buybox st @ map (offer_data asin (fst (last targets))) offers"
      by auto
    with r True assms show ?thesis
      by (auto simp: fetch_one_def for_targets_last)
  next
    case False
    with retry_loop_rows[OF r] have "all_main st1 = all_main st" "all_buybox st1 = all_buybox st"
      by auto
    then have "all_buybox st1 = all_buybox st @ map (offer_data asin (fst (last targets))) []"
      by simp
    with r False assms \<open>all_main st1 = all_main st\<close> show ?thesis
      by (simp add: fetch_one_def for_targets_last)
  qed
qed

lemma fetch_one_not_found:
  assumes "targets \<noteq> []" and "\<And>n t. \<not> is_page (w n asin t)"
  shows "\<exists>st'. fetch_one w targets asin st = Inr st' \<and>
           all_main st' = all_main st @ [not_found_row asin] \<and> all_buybox st' = all_buybox st"
proof -
  obtain found st1 where r: "retry_loop w asin (last targets) 0 st = (found, st1)"
    by (cases "retry_loop w asin (last targets) 0 st")
  from retry_loop_no_page[of w asin "last targets" 0 st] assms(2) r have nf: "\<not> found" by simp
  with retry_loop_rows[OF r] have "all_main st1 = all_main st" "all_buybox st1 = all_buybox st"
    by auto
  with r nf assms(1) show ?thesis
    by (simp add: fetch_one_def for_targets_last)
qed

lemma product_data_keys: "map fst (product_data a m ext) = final_columns"
  by (simp add: product_data_def final_columns_def ALLOWED_ITEM_DETAILS_def box_data_keys_def)

lemma not_found_row_keys: "map fst (not_found_row a) = final_columns"
  by (simp add: not_found_row_def final_columns_def)

lemma offer_data_keys: "map fst (offer_data a m ext) = offer_keys"
  by (simp add: offer_data_def offer_keys_def)

lemma offer_keys_set: "set offer_keys = set final_cols"
  by (auto simp: offer_keys_def final_cols_def)

lemma fetch_all_rows:
  assumes "targets \<noteq> []"
    and "list_all (\<lambda>r. map fst r = final_columns) (all_main st)"
    and "list_all (\<lambda>r. map fst r = offer_keys) (all_buybox st)"
  shows "\<exists>st'. fetch_all w targets asins st = Inr st' \<and>
           list_all (\<lambda>r. map fst r = final_columns) (all_main st') \<and>
           list_all (\<lambda>r. map fst r = offer_keys) (all_buybox st') \<and>
           map (\<lambda>r. map_of r ''ASIN'') (all_main st') = map (\<lambda>r. map_of r ''ASIN'') (all_main st) @ map Some asins"
  using assms(2,3)
proof (induction asins arbitrary: st)
  case Nil
  then show ?case by simp
next
  case (Cons a rest)
  from fetch_one_rows[OF assms(1), of w a st] obtain st1 r offers where
    f: "fetch_one w targets a st = Inr st1" and
    m: "all_main st1 = all_main st @ [r]" and
    rr: "r = not_found_row a \<or> (\<exists>ext. r = product_data a (fst (last targets)) ext)" and
    b: "all_buybox st1 = all_buybox st @ map (offer_data a (fst (last targets))) offers"
    by blast
  from rr have k: "map fst r = final_columns" by (auto simp: product_data_keys not_found_row_keys)
  from rr have a: "map_of r ''ASIN'' = Some a" by (auto simp: product_data_def not_found_row_def)
  have 1: "list_all (\<lambda>r. map fst r = final_columns) (all_main st1)"
    using Cons.prems(1) m k by simp
  have 2: "list_all (\<lambda>r. map fst r = offer_keys) (all_buybox st1)"
    using Cons.prems(2) b by (auto simp: list_all_iff offer_data_keys)
  from Cons.IH[OF 1 2] obtain st' where
    "fetch_all w targets rest st1 = Inr st'"
    "list_all (\<lambda>r. map fst r = final_columns) (all_main st')"
    "list_all (\<lambda>r. map fst r = offer_keys) (all_buybox st')"
    "map (\<lambda>r. map_of r ''ASIN'') (all_main st') = map (\<lambda>r. map_of r ''ASIN'') (all_main st1) @ map Some rest"
    by blast
  with f m a show ?case by simp
qed

lemma first_seen_set: "set (first_seen xs) = set xs"
  by (induction xs rule: first_seen.induct) auto

lemma reindex_DataFrame_cells:
  "cells (reindex (DataFrame recs) cols fill) =
     map (\<lambda>r. map (\<lambda>c. if c \<in> set (concat (map (map fst) recs))
                        then (case map_of r c of Some v \<Rightarrow> Str v | None \<Rightarrow> NaN)
                        else Str fill) cols) recs"
  by (simp add: reindex_def DataFrame_def Let_def map_of_zip_map first_seen_set)

lemma reindex_columns: "columns (reindex df cols fill) = cols"
  by (simp add: reindex_def)

lemma reindex_full_rows:
  assumes "list_all (\<lambda>r. set cols \<subseteq> set (map fst r)) recs"
  shows "cells (reindex (DataFrame recs) cols fill) =
     map (\<lambda>r. map (\<lambda>c. case map_of r c of Some v \<Rightarrow> Str v | None \<Rightarrow> Str fill) cols) recs"
proof -
  have "\<And>r c. r \<in> set recs \<Longrightarrow> c \<in> set cols \<Longrightarrow>
          (if c \<in> set (concat (map (map fst) recs))
           then (case map_of r c of Some v \<Rightarrow> Str v | None \<Rightarrow> NaN) else Str fill)
          = (case map_of r c of Some v \<Rightarrow> Str v | None \<Rightarrow> Str fill)"
  proof -
    fix r c assume r: "r \<in> set recs" and c: "c \<in> set cols"
    with assms have "c \<in> fst ` set r" by (auto simp: list_all_iff)
    then obtain v where "map_of r c = Some v"
      by (metis domD dom_map_of_conv_image_fst)
    moreover from r \<open>c \<in> fst ` set r\<close> have "c \<in> set (concat (map (map fst) recs))" by auto
    ultimately show "(if c \<in> set (concat (map (map fst) recs))
           then (case map_of r c of Some v \<Rightarrow> Str v | None \<Rightarrow> NaN) else Str fill)
          = (case map_of r c of Some v \<Rightarrow> Str v | None \<Rightarrow> Str fill)" by simp
  qed
  then show ?thesis by (simp add: reindex_DataFrame_cells)
qed

text \<open>
  Claim C1 (the code departs from it).  On a network where the identifier's page exists at
  the first configured target only, the per-identifier fetch over the five configured
  targets never contacts that target: its five requests all go to the last target,
  Amazon UK, with the fixed delay between them, and the identifier ends as a not-found row.
  Lemma \<open>fetch_one_trace\<close> is the general fact: for every network and every non-empty
  target list, all requests of one identifier go to the last target of the list.
\<close>

theorem fetch_one_india_only:
  "fetch_one india_only MARKETPLACES (ascii ''B0ABCDEFGH'') init_state =
     Inr \<lparr>all_main = [not_found_row (ascii ''B0ABCDEFGH'')], all_buybox = [],
          trace = [Scrape (ascii ''B0ABCDEFGH'') (ascii ''Amazon UK''), Sleep 3,
                   Scrape (ascii ''B0ABCDEFGH'') (ascii ''Amazon UK''), Sleep 3,
                   Scrape (ascii ''B0ABCDEFGH'') (ascii ''Amazon UK''), Sleep 3,
                   Scrape (ascii ''B0ABCDEFGH'') (ascii ''Amazon UK''), Sleep 3,
                   Scrape (ascii ''B0ABCDEFGH'') (ascii ''Amazon UK'')],
          requests = 5\<rparr>"
  by (simp add: fetch_one_def MARKETPLACES_def init_state_def retry_loop.simps MAX_RETRIES_def
      india_only_def ascii_def Let_def)

subsection \<open>The not-found row\<close>

text \<open>
  Claim C2, as amended.  When no request for the identifier yields a page, the body of the
  identifier loop raises nothing and appends exactly one row, the synthetic not-found row,
  leaving the offer list as it was.  That row has the 25 columns of the sheet; its
  \<open>ASIN\<close> is the identifier, its \<open>Marketplace\<close> is \<open>N/A\<close>, its \<open>Product Title\<close> is
  \<open>Not Found\<close>, its three badge columns are \<open>unavailable\<close>, and each of the other columns
  is \<open>N/A\<close>.
\<close>

theorem not_found_row_appended:
  assumes "\<And>n t. \<not> is_page (w n asin t)"
  shows "\<exists>st'. fetch_one w (specific_marketplaces U marketplace) asin st = Inr st' \<and>
           all_main st' = all_main st @ [not_found_row asin] \<and>
           all_buybox st' = all_buybox st \<and>
           map fst (not_found_row asin) = final_columns \<and>
           map_of (not_found_row asin) ''ASIN'' = Some asin \<and>
           map_of (not_found_row asin) ''Marketplace'' = Some (ascii ''N/A'') \<and>
           map_of (not_found_row asin) ''Product Title'' = Some (ascii ''Not Found'') \<and>
           list_all (\<lambda>c. map_of (not_found_row asin) c = Some (ascii ''unavailable''))
             [''Amazons_Choice_Text'', ''Deal_Badge_Text'', ''Best_Seller_Text''] \<and>
           list_all (\<lambda>c. map_of (not_found_row asin) c = Some (ascii ''N/A''))
             [''Marketplace'', ''Rating'', ''Total Reviews'', ''Social Bought'', ''Discount %'',
              ''Offer Price'', ''Price per Unit'', ''MRP'', ''Brand'', ''Model Number'',
              ''Country of Origin'', ''Customer Reviews'', ''Best Sellers Rank'',
              ''Manufacturer'', ''Packer'', ''Availability'', ''Delivery info'', ''Ships from'',
              ''Sold by'', ''Gift options'']"
proof -
  have "\<exists>st'. fetch_one w (specific_marketplaces U marketplace) asin st = Inr st' \<and>
           all_main st' = all_main st @ [not_found_row asin] \<and> all_buybox st' = all_buybox st"
    by (rule fetch_one_not_found) (simp_all add: specific_marketplaces_nonempty assms)
  then obtain st' where "fetch_one w (specific_marketplaces U marketplace) asin st = Inr st'"
    "all_main st' = all_main st @ [not_found_row asin]" "all_buybox st' = all_buybox st"
    by blast
  moreover have "map fst (not_found_row asin) = final_columns" by (rule not_found_row_keys)
  moreover have "map_of (not_found_row asin) ''ASIN'' = Some asin"
    "map_of (not_found_row asin) ''Marketplace'' = Some (ascii ''N/A'')"
    "map_of (not_found_row asin) ''Product Title'' = Some (ascii ''Not Found'')"
    by (simp_all add: not_found_row_def NA_def)
  moreover have "list_all (\<lambda>c. map_of (not_found_row asin) c = Some (ascii ''unavailable''))
             [''Amazons_Choice_Text'', ''Deal_Badge_Text'', ''Best_Seller_Text'']"
    by (simp add: not_found_row_def)
  moreover have "list_all (\<lambda>c. map_of (not_found_row asin) c = Some (ascii ''N/A''))
             [''Marketplace'', ''Rating'', ''Total Reviews'', ''Social Bought'', ''Discount %'',
              ''Offer Price'', ''Price per Unit'', ''MRP'', ''Brand'', ''Model Number'',
              ''Country of Origin'', ''Customer Reviews'', ''Best Sellers Rank'',
              ''Manufacturer'', ''Packer'', ''Availability'', ''Delivery info'', ''Ships from'',
              ''Sold by'', ''Gift options'']"
    by (simp add: not_found_row_def NA_def)
  ultimately show ?thesis by blast
qed

theorem not_found_row_appended_witness:
  "(\<forall>n t. \<not> is_page (dead_web n (ascii ''B0ABCDEFGH'') t)) \<and>
   (\<exists>st'. fetch_one dead_web (specific_marketplaces sample_ucd None) (ascii ''B0ABCDEFGH'') init_state = Inr st' \<and>
      all_main st' = [not_found_row (ascii ''B0ABCDEFGH'')] \<and> all_buybox st' = [])"
proof -
  have h: "\<And>n t. \<not> is_page (dead_web n (ascii ''B0ABCDEFGH'') t)"
    by (simp add: dead_web_def is_page_def)
  from not_found_row_appended[of dead_web "ascii ''B0ABCDEFGH''" sample_ucd None init_state, OF h] h
  show ?thesis by (auto simp: init_state_def)
qed

text \<open>
  Claim C2 as stated fails: in the row appended for an identifier that no target yields,
  the title and the badge columns do not carry the sentinel \<open>N/A\<close>.
\<close>

theorem not_found_row_not_all_sentinel:
  "map_sum id all_main (fetch_one dead_web MARKETPLACES (ascii ''B0ABCDEFGH'') init_state)
     = Inr [not_found_row (ascii ''B0ABCDEFGH'')] \<and>
   map_of (not_found_row (ascii ''B0ABCDEFGH'')) ''Product Title'' = Some (ascii ''Not Found'') \<and>
   map_of (not_found_row (ascii ''B0ABCDEFGH'')) ''Deal_Badge_Text'' = Some (ascii ''unavailable'') \<and>
   \<not> all_sentinel (not_found_row (ascii ''B0ABCDEFGH''))"
  by (simp add: fetch_one_def MARKETPLACES_def init_state_def retry_loop.simps MAX_RETRIES_def
      dead_web_def Let_def not_found_row_def all_sentinel_def NA_def ascii_def)

subsection \<open>The sheets of the products workbook\<close>

text \<open>
  Claim C3, as amended.  Every run of \<open>run_products_scraper\<close> returns, and writes a
  \<open>Products\<close> sheet with exactly the fixed 25 columns and an \<open>OtherSellers\<close> sheet with
  exactly the fixed 11 columns, in the stated order, whatever the records hold; a cell is
  the record's value for the column, and \<open>N/A\<close> where the record supplies none.
\<close>

theorem workbook_schema:
  "\<exists>wb st. run_products_scraper U w asin_input marketplace = Inr (wb, st) \<and>
     columns (Products wb) =
       [''ASIN'', ''Marketplace'', ''Product Title'', ''Rating'', ''Total Reviews'',
        ''Social Bought'', ''Amazons_Choice_Text'', ''Deal_Badge_Text'', ''Best_Seller_Text'',
        ''Discount %'', ''Offer Price'', ''Price per Unit'', ''MRP'', ''Brand'', ''Model Number'',
        ''Country of Origin'', ''Customer Reviews'', ''Best Sellers Rank'', ''Manufacturer'',
        ''Packer'', ''Availability'', ''Delivery info'', ''Ships from'', ''Sold by'',
        ''Gift options''] \<and>
     length (columns (Products wb)) = 25 \<and>
     columns (OtherSellers wb) =
       [''ASIN'', ''Sold By'', ''Marketplace'', ''Offer Price'', ''Discount %'', ''MRP'',
        ''Ships From'', ''Delivery Info'', ''Condition'', ''Rating'', ''Seller Performance''] \<and>
     length (columns (OtherSellers wb)) = 11 \<and>
     cells (Products wb) =
       map (\<lambda>r. map (\<lambda>c. case map_of r c of Some v \<Rightarrow> Str v | None \<Rightarrow> Str (ascii ''N/A''))
                  (columns (Products wb))) (all_main st) \<and>
     cells (OtherSellers wb) =
       map (\<lambda>r. map (\<lambda>c. case map_of r c of Some v \<Rightarrow> Str v | None \<Rightarrow> Str (ascii ''N/A''))
                  (columns (OtherSellers wb))) (all_buybox st)"
proof -
  have i1: "list_all (\<lambda>r. map fst r = final_columns) (all_main init_state)"
    and i2: "list_all (\<lambda>r. map fst r = offer_keys) (all_buybox init_state)"
    by (simp_all add: init_state_def)
  have "\<exists>st'. fetch_all w (specific_marketplaces U marketplace) (asin_list asin_input) init_state = Inr st' \<and>
           list_all (\<lambda>r. map fst r = final_columns) (all_main st') \<and>
           list_all (\<lambda>r. map fst r = offer_keys) (all_buybox st') \<and>
           map (\<lambda>r. map_of r ''ASIN'') (all_main st') =
             map (\<lambda>r. map_of r ''ASIN'') (all_main init_state) @ map Some (asin_list asin_input)"
    by (rule fetch_all_rows) (simp_all add: specific_marketplaces_nonempty i1 i2)
  then obtain st where f: "fetch_all w (specific_marketplaces U marketplace) (asin_list asin_input) init_state = Inr st"
    and m: "list_all (\<lambda>r. map fst r = final_columns) (all_main st)"
    and b: "list_all (\<lambda>r. map fst r = offer_keys) (all_buybox st)"
    by blast
  let ?wb = "write_workbook st"
  have run: "run_products_scraper U w asin_input marketplace = Inr (?wb, st)"
    by (simp add: run_products_scraper_def f)
  have cp: "columns (Products ?wb) = final_columns"
    by (simp add: write_workbook_def reindex_columns)
  have cs: "columns (OtherSellers ?wb) = final_cols"
    by (simp add: write_workbook_def reindex_columns empty_frame_def)
  have m': "list_all (\<lambda>r. set final_columns \<subseteq> set (map fst r)) (all_main st)"
    using m by (auto simp: list_all_iff simp flip: set_map)
  have b': "list_all (\<lambda>r. set final_cols \<subseteq> set (map fst r)) (all_buybox st)"
    using b by (auto simp: list_all_iff offer_keys_set simp flip: set_map)
  have xp: "cells (Products ?wb) =
       map (\<lambda>r. map (\<lambda>c. case map_of r c of Some v \<Rightarrow> Str v | None \<Rightarrow> Str (ascii ''N/A''))
                  final_columns) (all_main st)"
    using reindex_full_rows[OF m', of NA, unfolded NA_def] by (simp add: write_workbook_def NA_def)
  have xs: "cells (OtherSellers ?wb) =
       map (\<lambda>r. map (\<lambda>c. case map_of r c of Some v \<Rightarrow> Str v | None \<Rightarrow> Str (ascii ''N/A''))
                  final_cols) (all_buybox st)"
  proof (cases "all_buybox st = []")
    case True
    then show ?thesis by (simp add: write_workbook_def empty_frame_def)
  next
    case False
    then show ?thesis
      using reindex_full_rows[OF b', of NA, unfolded NA_def] by (simp add: write_workbook_def NA_def)
  qed
  have l1: "length final_columns = 25" by (simp add: final_columns_def)
  have l2: "length final_cols = 11" by (simp add: final_cols_def)
  show ?thesis
    apply (rule exI[of _ ?wb], rule exI[of _ st])
    apply (simp only: run cp cs xp xs l1 l2)
    apply (simp add: final_columns_def final_cols_def)
    done
qed

text \<open>
  Claim C3 as stated fails: the \<open>Products\<close> sheet of a run has 25 columns, not 23.
\<close>

theorem products_sheet_has_25_columns:
  "map_sum id (\<lambda>out. length (columns (Products (fst out))))
     (run_products_scraper sample_ucd dead_web (ascii ''B0ABCDEFGH'') None) = Inr 25 \<and> (25::nat) \<noteq> 23"
  by (simp add: run_products_scraper_def specific_marketplaces_def resolve_marketplace_def
       asin_list_def py_split_def replace_comma_def py_strip_def isspace_def
       fetch_one_def MARKETPLACES_def init_state_def retry_loop.simps MAX_RETRIES_def
       dead_web_def Let_def ascii_def write_workbook_def reindex_def final_columns_def)

subsection \<open>Marketplace resolution\<close>

lemma resolve_marketplace_by_key:
  assumes "s \<noteq> []" "s' \<noteq> []" "py_lower U (py_strip s) = py_lower U (py_strip s')"
  shows "resolve_marketplace U (Some s) = resolve_marketplace U (Some s')"
  using assms by (simp add: resolve_marketplace_def)

lemma resolve_marketplace_canonical:
  assumes "resolve_marketplace U sel = Some t"
  shows "t \<in> set MARKETPLACES"
  using assms
  by (auto simp: resolve_marketplace_def split: option.splits if_splits dest: map_of_SomeD)

lemma unresolved_selects_all:
  "resolve_marketplace U sel = None \<Longrightarrow> specific_marketplaces U sel = MARKETPLACES"
  by (simp add: specific_marketplaces_def)

lemma resolve_marketplace_examples:
  "resolve_marketplace sample_ucd (Some (ascii '' UK '')) =
     Some (ascii ''Amazon UK'', ascii ''https://www.amazon.co.uk/dp/'')"
  "resolve_marketplace sample_ucd (Some (ascii ''United States'')) =
     Some (ascii ''Amazon USA'', ascii ''https://www.amazon.com/dp/'')"
  "resolve_marketplace sample_ucd (Some (ascii ''mars'')) = None"
  "resolve_marketplace sample_ucd (Some []) = None"
  "resolve_marketplace sample_ucd None = None"
  by (simp_all add: resolve_marketplace_def MARKETPLACE_ALIASES_def MARKETPLACES_def
       py_lower_def lower_cp_def py_strip_def isspace_def ascii_def sample_ucd_def)

text \<open>
  Claim C7 (the code departs from it).  Resolution itself is as claimed (the lemmas
  above): it reads the selector through \<open>strip\<close> and \<open>lower\<close> only, yields a configured
  target, and an empty or unrecognised selector selects the five configured targets in
  configuration order.  The run does not try them: with the selector \<open>mars\<close>, or the empty
  selector, and the identifier's page present at Amazon India only, every request goes to
  Amazon UK and the identifier ends as a not-found row.
\<close>

theorem fallback_contacts_last_target_only:
  "map_sum id (\<lambda>out. (trace (snd out), all_main (snd out)))
     (run_products_scraper sample_ucd india_only (ascii ''B0ABCDEFGH'') (Some (ascii ''mars''))) =
   Inr ([Scrape (ascii ''B0ABCDEFGH'') (ascii ''Amazon UK''), Sleep 3,
         Scrape (ascii ''B0ABCDEFGH'') (ascii ''Amazon UK''), Sleep 3,
         Scrape (ascii ''B0ABCDEFGH'') (ascii ''Amazon UK''), Sleep 3,
         Scrape (ascii ''B0ABCDEFGH'') (ascii ''Amazon UK''), Sleep 3,
         Scrape (ascii ''B0ABCDEFGH'') (ascii ''Amazon UK'')],
        [not_found_row (ascii ''B0ABCDEFGH'')]) \<and>
   map_sum id (\<lambda>out. (trace (snd out), all_main (snd out)))
     (run_products_scraper sample_ucd india_only (ascii ''B0ABCDEFGH'') (Some [])) =
   Inr ([Scrape (ascii ''B0ABCDEFGH'') (ascii ''Amazon UK''), Sleep 3,
         Scrape (ascii ''B0ABCDEFGH'') (ascii ''Amazon UK''), Sleep 3,
         Scrape (ascii ''B0ABCDEFGH'') (ascii ''Amazon UK''), Sleep 3,
         Scrape (ascii ''B0ABCDEFGH'') (ascii ''Amazon UK''), Sleep 3,
         Scrape (ascii ''B0ABCDEFGH'') (ascii ''Amazon UK'')],
        [not_found_row (ascii ''B0ABCDEFGH'')])"
  by (simp add: run_products_scraper_def specific_marketplaces_def resolve_marketplace_def
       MARKETPLACE_ALIASES_def py_lower_def lower_cp_def sample_ucd_def
       asin_list_def py_split_def replace_comma_def py_strip_def isspace_def
       fetch_one_def MARKETPLACES_def init_state_def retry_loop.simps MAX_RETRIES_def
       india_only_def Let_def ascii_def)

subsection \<open>Working lists of identifiers\<close>

lemma dropWhile_none: "list_all (\<lambda>c. \<not> P c) xs \<Longrightarrow> dropWhile P xs = xs"
  by (cases xs) auto

lemma py_strip_no_space: "list_all (\<lambda>c. \<not> isspace c) t \<Longrightarrow> py_strip t = t"
  by (simp add: py_strip_def dropWhile_none list_all_iff)

lemma split_acc_tokens:
  "list_all (\<lambda>c. \<not> isspace c) cur \<Longrightarrow>
   list_all (\<lambda>t. t \<noteq> [] \<and> list_all (\<lambda>c. \<not> isspace c) t) (split_acc cur s)"
  by (induction cur s rule: split_acc.induct) auto

lemma py_split_tokens: "list_all (\<lambda>t. t \<noteq> [] \<and> list_all (\<lambda>c. \<not> isspace c) t) (py_split s)"
  by (simp add: py_split_def split_acc_tokens)

lemma asin_list_tokens: "asin_list inp = py_split (replace_comma inp)"
proof -
  have "\<And>ts. list_all (\<lambda>t. t \<noteq> [] \<and> list_all (\<lambda>c. \<not> isspace c) t) ts \<Longrightarrow>
          map py_strip (filter (\<lambda>a. py_strip a \<noteq> []) ts) = ts"
  proof -
    fix ts :: "pystr list"
    show "list_all (\<lambda>t. t \<noteq> [] \<and> list_all (\<lambda>c. \<not> isspace c) t) ts \<Longrightarrow>
          map py_strip (filter (\<lambda>a. py_strip a \<noteq> []) ts) = ts"
      by (induction ts) (auto simp: py_strip_no_space)
  qed
  then show ?thesis by (simp add: asin_list_def py_split_tokens)
qed

lemma split_acc_word:
  "list_all (\<lambda>c. \<not> isspace c) t \<Longrightarrow> split_acc cur (t @ s) = split_acc (cur @ t) s"
  by (induction t arbitrary: cur) auto

lemma py_split_join:
  "list_all (\<lambda>t. t \<noteq> [] \<and> list_all (\<lambda>c. \<not> isspace c) t) ts \<Longrightarrow> split_acc [] (py_join ts) = ts"
proof (induction ts rule: py_join.induct)
  case 1
  then show ?case by simp
next
  case (2 w)
  then have "split_acc [] (w @ []) = split_acc ([] @ w) []" by (intro split_acc_word) simp
  with 2 show ?case by simp
next
  case (3 w v ws)
  then have w: "list_all (\<lambda>c. \<not> isspace c) w" "w \<noteq> []" by simp_all
  have "split_acc [] (w @ ([32] @ py_join (v # ws))) = split_acc ([] @ w) ([32] @ py_join (v # ws))"
    by (rule split_acc_word[OF w(1)])
  also have "\<dots> = w # split_acc [] (py_join (v # ws))"
    using w(2) by (simp add: isspace_def)
  also have "\<dots> = w # v # ws" using 3 by simp
  finally show ?case by simp
qed

lemma asin_char_no_comma: "asin_char c \<Longrightarrow> c \<noteq> 44"
  by (auto simp: asin_char_def)

lemma fullmatch_asin_chars: "fullmatch_asin x \<Longrightarrow> x \<noteq> [] \<and> list_all asin_char x"
  by (auto simp: fullmatch_asin_shape asin_char_def)

lemma fullmatch_asin_no_comma: "fullmatch_asin x \<Longrightarrow> list_all (\<lambda>c. c \<noteq> 44) x"
  using fullmatch_asin_chars[of x] by (auto simp: list_all_iff dest: asin_char_no_comma)

lemma fullmatch_asin_token:
  "fullmatch_asin x \<Longrightarrow> x \<noteq> [] \<and> list_all (\<lambda>c. \<not> isspace c) x"
  using fullmatch_asin_chars[of x] by (auto simp: list_all_iff dest: asin_char_not_space)

lemma py_join_chars:
  "list_all (list_all (\<lambda>c. c \<noteq> 44)) ts \<Longrightarrow> list_all (\<lambda>c. c \<noteq> 44) (py_join ts)"
  by (induction ts rule: py_join.induct) auto

lemma replace_comma_id: "list_all (\<lambda>c. c \<noteq> 44) s \<Longrightarrow> replace_comma s = s"
  by (induction s) (auto simp: replace_comma_def)

lemma asin_list_join:
  assumes "list_all fullmatch_asin u"
  shows "asin_list (py_join u) = u"
proof -
  have 1: "list_all (list_all (\<lambda>c. c \<noteq> 44)) u"
    using assms fullmatch_asin_no_comma by (auto simp: list_all_iff)
  have 2: "list_all (\<lambda>t. t \<noteq> [] \<and> list_all (\<lambda>c. \<not> isspace c) t) u"
    using assms fullmatch_asin_token by (auto simp: list_all_iff)
  show ?thesis
    by (simp add: asin_list_tokens replace_comma_id[OF py_join_chars[OF 1]] py_split_def py_split_join[OF 2])
qed

lemma asin_union_valid: "list_all fullmatch_asin (asin_union U raw col)"
  by (auto simp: asin_union_def seed_asins_of_def comp_asins_of_def list_all_iff)

lemma asin_union_upper: "list_all (\<lambda>a. py_upper U a = a) (asin_union U raw col)"
proof -
  have "\<And>a. fullmatch_asin a \<Longrightarrow> py_upper U a = a"
  proof -
    fix a assume "fullmatch_asin a"
    then have "list_all asin_char a" by (simp add: fullmatch_asin_chars)
    then show "py_upper U a = a"
      by (intro py_upper_fixed) (simp add: list_all_iff asin_char_upper)
  qed
  with asin_union_valid[of U raw col] show ?thesis by (simp add: list_all_iff)
qed

lemma route_fetch_list_eq:
  "route_fetch_list U seed_asins_raw comp_df =
     (case column comp_df ''Competitor_ASIN'' of
        Inl e \<Rightarrow> Inl RuntimeError
      | Inr col \<Rightarrow> Inr (asin_union U seed_asins_raw col))"
  by (auto simp: route_fetch_list_def Let_def asin_list_join asin_union_valid split: sum.splits)

lemma asin_list_chars:
  "list_all (\<lambda>t. t \<noteq> [] \<and> list_all (\<lambda>c. \<not> isspace c \<and> c \<noteq> 44) t) (asin_list asin_input)"
proof -
  have nc: "list_all (\<lambda>c. c \<noteq> 44) (replace_comma asin_input)"
    by (induction asin_input) (simp_all add: replace_comma_def)
  have "\<And>cur s. list_all (\<lambda>c. c \<noteq> 44) cur \<Longrightarrow> list_all (\<lambda>c. c \<noteq> 44) s \<Longrightarrow>
           list_all (list_all (\<lambda>c. c \<noteq> (44::nat))) (split_acc cur s)"
  proof -
    fix cur s :: pystr
    show "list_all (\<lambda>c. c \<noteq> 44) cur \<Longrightarrow> list_all (\<lambda>c. c \<noteq> 44) s \<Longrightarrow>
           list_all (list_all (\<lambda>c. c \<noteq> (44::nat))) (split_acc cur s)"
      by (induction cur s rule: split_acc.induct) auto
  qed
  from this[of "[]", OF _ nc] have "list_all (list_all (\<lambda>c. c \<noteq> 44)) (py_split (replace_comma asin_input))"
    by (simp add: py_split_def)
  with py_split_tokens[of "replace_comma asin_input"] show ?thesis
    by (auto simp: asin_list_tokens list_all_iff)
qed

text \<open>
  Claim C4, as amended.  \<open>run_products_scraper\<close> (as \<open>run_competitor_scraper\<close>) checks no
  pattern: its working list is every token of the input between commas and white space,
  unchanged.  In the \<open>run_competitor\<close> route the list handed to the product fetch is
  \<open>asin_union\<close>: every entry matches the identifier pattern and is upper case, the list is
  sorted and free of duplicates, malformed tokens are dropped, and no token raises (the
  only error of the step is the missing \<open>Competitor_ASIN\<close> column).
\<close>

theorem working_lists:
  "asin_list asin_input = py_split (replace_comma asin_input) \<and>
   list_all (\<lambda>t. t \<noteq> [] \<and> list_all (\<lambda>c. \<not> isspace c \<and> c \<noteq> 44) t) (asin_list asin_input) \<and>
   route_fetch_list U seed_asins_raw comp_df =
     (case column comp_df ''Competitor_ASIN'' of
        Inl e \<Rightarrow> Inl RuntimeError
      | Inr col \<Rightarrow> Inr (asin_union U seed_asins_raw col)) \<and>
   list_all fullmatch_asin (asin_union U seed_asins_raw col) \<and>
   list_all (\<lambda>a. py_upper U a = a) (asin_union U seed_asins_raw col) \<and>
   sorted (asin_union U seed_asins_raw col) \<and> distinct (asin_union U seed_asins_raw col)"
  by (simp add: asin_list_tokens[symmetric] asin_list_chars route_fetch_list_eq asin_union_valid
      asin_union_upper) (simp add: asin_union_def)

text \<open>
  Claim C4 as stated fails at \<open>run_products_scraper\<close>: the tokens \<open>hello\<close> and
  \<open>b0abcdefgh\<close> do not match the pattern, both are placed in the working list, and a run
  on \<open>hello\<close> sends its requests for \<open>hello\<close>.
\<close>

theorem products_scraper_fetches_malformed_token:
  "asin_list (ascii ''hello, b0abcdefgh'') = [ascii ''hello'', ascii ''b0abcdefgh''] \<and>
   \<not> fullmatch_asin (ascii ''hello'') \<and> \<not> fullmatch_asin (ascii ''b0abcdefgh'') \<and>
   map_sum id (\<lambda>out. trace (snd out))
     (run_products_scraper sample_ucd dead_web (ascii ''hello'') (Some (ascii ''uk''))) =
   Inr [Scrape (ascii ''hello'') (ascii ''Amazon UK''), Sleep 3,
        Scrape (ascii ''hello'') (ascii ''Amazon UK''), Sleep 3,
        Scrape (ascii ''hello'') (ascii ''Amazon UK''), Sleep 3,
        Scrape (ascii ''hello'') (ascii ''Amazon UK''), Sleep 3,
        Scrape (ascii ''hello'') (ascii ''Amazon UK'')]"
  by (simp add: run_products_scraper_def specific_marketplaces_def resolve_marketplace_def
       MARKETPLACE_ALIASES_def py_lower_def lower_cp_def sample_ucd_def
       asin_list_def py_split_def replace_comma_def py_strip_def isspace_def
       fetch_one_def MARKETPLACES_def init_state_def retry_loop.simps MAX_RETRIES_def
       dead_web_def Let_def ascii_def fullmatch_asin_def asin_char_def)

subsection \<open>The \<open>Search_ASIN\<close> annotation\<close>

lemma map_of_zip_upd:
  "length r = length cols \<Longrightarrow>
   map_of (zip cols (map (\<lambda>kx. if fst kx = c then v else snd kx) (zip cols r))) k =
     (if k = c then (if c \<in> set cols then Some v else None) else map_of (zip cols r) k)"
  by (induction r cols rule: list_induct2) auto

lemma map_of_zip_snoc:
  "length r = length cols \<Longrightarrow> c \<notin> set cols \<Longrightarrow>
   map_of (zip (cols @ [c]) (r @ [v])) k = (if k = c then Some v else map_of (zip cols r) k)"
  by (induction r cols rule: list_induct2) auto

lemma row_snoc_last:
  "length r = length cols \<Longrightarrow> c \<notin> set cols \<Longrightarrow>
   (case map_of (zip (cols @ [c]) (r @ [v])) c of Some x \<Rightarrow> x | None \<Rightarrow> NaN) = v"
  by (induction r cols rule: list_induct2) auto

lemma map_of_zip_in:
  "length r = length cols \<Longrightarrow> k \<in> set cols \<Longrightarrow> \<exists>v. map_of (zip cols r) k = Some v"
  by (induction r cols rule: list_induct2) auto

lemma set_column_columns:
  "columns (set_column df c vs) = (if c \<in> set (columns df) then columns df else columns df @ [c])"
  by (simp add: set_column_def)

lemma set_column_wf:
  "wf_frame df \<Longrightarrow> wf_frame (set_column df c vs)"
  by (auto simp: wf_frame_def set_column_def list_all_iff dest!: set_zip_leftD)

lemma set_column_same:
  assumes "wf_frame df" "length vs = length (cells df)"
  shows "column (set_column df c vs) c = Inr vs"
proof -
  have len: "\<And>r. r \<in> set (cells df) \<Longrightarrow> length r = length (columns df)"
    using assms(1) by (simp add: wf_frame_def list_all_iff)
  show ?thesis
  proof (cases "c \<in> set (columns df)")
    case True
    have "map (\<lambda>rv. case map_of (zip (columns df)
              (map (\<lambda>kx. if fst kx = c then snd rv else snd kx) (zip (columns df) (fst rv)))) c of
            Some v \<Rightarrow> v | None \<Rightarrow> NaN) (zip (cells df) vs) = map snd (zip (cells df) vs)"
      using True by (auto simp: map_of_zip_upd len dest!: set_zip_leftD)
    with True assms(2) show ?thesis
      by (simp add: column_def set_column_def o_def)
  next
    case False
    have "map (\<lambda>rv. case map_of (zip (columns df @ [c]) (fst rv @ [snd rv])) c of
            Some v \<Rightarrow> v | None \<Rightarrow> NaN) (zip (cells df) vs) = map snd (zip (cells df) vs)"
    proof (rule map_cong[OF refl])
      fix rv assume "rv \<in> set (zip (cells df) vs)"
      then have "fst rv \<in> set (cells df)"
        by (metis set_zip_leftD prod.collapse)
      then have "length (fst rv) = length (columns df)" by (rule len)
      from row_snoc_last[OF this False]
      show "(case map_of (zip (columns df @ [c]) (fst rv @ [snd rv])) c of
            Some v \<Rightarrow> v | None \<Rightarrow> NaN) = snd rv" .
    qed
    with False assms(2) show ?thesis
      by (simp add: column_def set_column_def o_def)
  qed
qed

lemma select_columns_first:
  "column (select_columns df (c # cs)) c =
     Inr (map (\<lambda>r. case map_of (zip (columns df) r) c of Some v \<Rightarrow> v | None \<Rightarrow> NaN) (cells df))"
  by (simp add: column_def select_columns_def o_def)

lemma ensure_first_column_keeps:
  assumes "c \<in> set (columns df)"
  shows "column (ensure_first_column df c) c = column df c"
    and "columns (ensure_first_column df c) = c # filter (\<lambda>k. k \<noteq> c) (columns df)"
  using assms by (simp_all add: ensure_first_column_def Let_def select_columns_first)
    (simp_all add: column_def select_columns_def)

lemma column_length: "column df c = Inr vs \<Longrightarrow> length vs = length (cells df)"
  by (auto simp: column_def split: if_splits)

lemma attach_column:
  assumes "wf_frame df" "column df ''ASIN'' = Inr asins"
  shows "column (attach U M seeds df) ''Search_ASIN'' = Inr (map (search_asin_cell U M seeds) asins)"
    and "columns (attach U M seeds df) = ''Search_ASIN'' # filter (\<lambda>k. k \<noteq> ''Search_ASIN'') (columns df)"
proof -
  let ?vs = "map (search_asin_cell U M seeds) asins"
  let ?df1 = "set_column df ''Search_ASIN'' ?vs"
  have l: "length ?vs = length (cells df)" using column_length[OF assms(2)] by simp
  have in1: "''Search_ASIN'' \<in> set (columns ?df1)" by (simp add: set_column_columns)
  have a: "attach U M seeds df = ensure_first_column ?df1 ''Search_ASIN''"
    by (simp add: attach_def assms(2))
  show "column (attach U M seeds df) ''Search_ASIN'' = Inr ?vs"
    by (simp add: a ensure_first_column_keeps(1)[OF in1] set_column_same[OF assms(1) l])
  show "columns (attach U M seeds df) = ''Search_ASIN'' # filter (\<lambda>k. k \<noteq> ''Search_ASIN'') (columns df)"
    by (simp add: a ensure_first_column_keeps(2)[OF in1] set_column_columns)
qed

lemma build_search_map_values:
  assumes "build_search_map_from_comp_df U comp_df a = Some m"
  shows "fullmatch_asin a \<and> fullmatch_asin m"
proof -
  from assms obtain cc sc where
    "(a, m) \<in> set (filter (\<lambda>cs. fst cs \<noteq> [] \<and> snd cs \<noteq> []) (zip (map (norm_asin U) cc) (map (norm_asin U) sc)))"
    by (auto simp: build_search_map_from_comp_df_def split: sum.splits dest!: map_of_SomeD)
  then have ne: "a \<noteq> []" "m \<noteq> []" and z: "(a, m) \<in> set (zip (map (norm_asin U) cc) (map (norm_asin U) sc))"
    by auto
  from z have "a \<in> set (map (norm_asin U) cc)" "m \<in> set (map (norm_asin U) sc)"
    by (auto dest: set_zip_leftD set_zip_rightD)
  then obtain x y where "a = norm_asin U x" "m = norm_asin U y" by auto
  with ne norm_asin_cases[of U x] norm_asin_cases[of U y] show ?thesis by auto
qed

lemma search_asin_cell_rule:
  "search_asin_cell U (build_search_map_from_comp_df U comp_df) seeds c =
     (let a = norm_asin U (Str (astype_str c)) in
      case build_search_map_from_comp_df U comp_df a of
        Some seed \<Rightarrow> Str seed
      | None \<Rightarrow> if a \<in> set seeds then Str a else NaN)"
proof -
  let ?a = "norm_asin U (Str (astype_str c))"
  show ?thesis
  proof (cases "build_search_map_from_comp_df U comp_df ?a")
    case None
    then show ?thesis by (simp add: search_asin_cell_def Let_def)
  next
    case (Some m)
    from build_search_map_values[OF Some] have "m \<noteq> []" by (auto simp: fullmatch_asin_def)
    with Some show ?thesis by (simp add: search_asin_cell_def Let_def)
  qed
qed

lemma norm_asin_valid: "fullmatch_asin x \<Longrightarrow> norm_asin U (Str x) = x"
  by (simp add: norm_asin_def Let_def fullmatch_asin_fixed)

lemma scenario_ids:
  "fullmatch_asin (ascii ''B0ABCDEFGH'')" "fullmatch_asin (ascii ''B0XYZ12345'')"
  by (simp_all add: fullmatch_asin_def asin_char_def ascii_def)

lemma scenario_seeds: "seed_asins_of U (ascii ''B0ABCDEFGH'') = [ascii ''B0ABCDEFGH'']"
proof -
  have t: "py_split (replace_comma (ascii ''B0ABCDEFGH'')) = [ascii ''B0ABCDEFGH'']"
    by (simp add: py_split_def replace_comma_def ascii_def isspace_def)
  have s: "py_strip (ascii ''B0ABCDEFGH'') \<noteq> []"
    by (simp add: py_strip_def isspace_def ascii_def)
  show ?thesis
    using s scenario_ids(1) by (simp add: seed_asins_of_def t fullmatch_asin_fixed)
qed

lemma scenario_column:
  "column scenario_competitors ''Competitor_ASIN'' = Inr [Str (ascii ''B0XYZ12345'')]"
  "column scenario_competitors ''Search_ASIN'' = Inr [Str (ascii ''B0ABCDEFGH'')]"
  by (simp_all add: column_def scenario_competitors_def)

lemma scenario_comp: "comp_asins_of U [Str (ascii ''B0XYZ12345'')] = [ascii ''B0XYZ12345'']"
proof -
  have "py_upper U (ascii ''B0XYZ12345'') = ascii ''B0XYZ12345''"
    by (simp add: py_upper_def upper_cp_def ascii_def)
  moreover have "py_strip (ascii ''B0XYZ12345'') = ascii ''B0XYZ12345''"
    by (simp add: py_strip_def isspace_def ascii_def)
  ultimately show ?thesis
    using scenario_ids(2) by (simp add: comp_asins_of_def dropna_def)
qed

lemma scenario_union:
  "asin_union U (ascii ''B0ABCDEFGH'') [Str (ascii ''B0XYZ12345'')] =
     [ascii ''B0ABCDEFGH'', ascii ''B0XYZ12345'']"
  by (simp add: asin_union_def scenario_seeds scenario_comp) (simp add: ascii_def)

lemma scenario_map:
  "build_search_map_from_comp_df U scenario_competitors =
     [ascii ''B0XYZ12345'' \<mapsto> ascii ''B0ABCDEFGH'']"
  using scenario_ids
  by (simp add: build_search_map_from_comp_df_def scenario_column norm_asin_valid)
     (auto simp: fullmatch_asin_def)

lemma run_products_rows:
  "\<exists>st. run_products_scraper U w asin_input marketplace = Inr (write_workbook st, st) \<and>
        list_all (\<lambda>r. map fst r = final_columns) (all_main st) \<and>
        list_all (\<lambda>r. map fst r = offer_keys) (all_buybox st) \<and>
        map (\<lambda>r. map_of r ''ASIN'') (all_main st) = map Some (asin_list asin_input)"
proof -
  have i1: "list_all (\<lambda>r. map fst r = final_columns) (all_main init_state)"
    and i2: "list_all (\<lambda>r. map fst r = offer_keys) (all_buybox init_state)"
    by (simp_all add: init_state_def)
  have "\<exists>st'. fetch_all w (specific_marketplaces U marketplace) (asin_list asin_input) init_state = Inr st' \<and>
           list_all (\<lambda>r. map fst r = final_columns) (all_main st') \<and>
           list_all (\<lambda>r. map fst r = offer_keys) (all_buybox st') \<and>
           map (\<lambda>r. map_of r ''ASIN'') (all_main st') =
             map (\<lambda>r. map_of r ''ASIN'') (all_main init_state) @ map Some (asin_list asin_input)"
    by (rule fetch_all_rows) (simp_all add: specific_marketplaces_nonempty i1 i2)
  then show ?thesis
    by (auto simp: run_products_scraper_def init_state_def)
qed

lemma products_sheet_wf:
  "list_all (\<lambda>r. map fst r = final_columns) (all_main st) \<Longrightarrow> wf_frame (Products (write_workbook st))"
  by (simp add: wf_frame_def write_workbook_def reindex_def list_all_iff final_columns_def)

lemma products_sheet_asin_column:
  assumes "list_all (\<lambda>r. map fst r = final_columns) (all_main st)"
    and "map (\<lambda>r. map_of r ''ASIN'') (all_main st) = map Some asins"
  shows "column (Products (write_workbook st)) ''ASIN'' = Inr (map Str asins)"
proof -
  have m': "list_all (\<lambda>r. set final_columns \<subseteq> set (map fst r)) (all_main st)"
    using assms(1) by (auto simp: list_all_iff simp flip: set_map)
  have c: "cells (Products (write_workbook st)) =
       map (\<lambda>r. map (\<lambda>c. case map_of r c of Some v \<Rightarrow> Str v | None \<Rightarrow> Str NA) final_columns) (all_main st)"
    using reindex_full_rows[OF m', of NA] by (simp add: write_workbook_def)
  have cols: "columns (Products (write_workbook st)) = final_columns"
    by (simp add: write_workbook_def reindex_columns)
  have a: "''ASIN'' \<in> set final_columns" by (simp add: final_columns_def)
  have "map (\<lambda>r. case map_of r ''ASIN'' of Some v \<Rightarrow> Str v | None \<Rightarrow> Str NA) (all_main st)
          = map (\<lambda>x. case x of Some v \<Rightarrow> Str v | None \<Rightarrow> Str NA) (map (\<lambda>r. map_of r ''ASIN'') (all_main st))"
    by (simp add: o_def)
  also have "\<dots> = map Str asins" by (simp add: assms(2) o_def)
  finally show ?thesis
    using a by (simp add: column_def cols c o_def map_of_zip_map)
qed

text \<open>
  Claim C6.  For a sheet as pandas reads it, with an \<open>ASIN\<close> column, both frames that
  \<open>_add_search_asin_to_amazon_frames\<close> returns have \<open>Search_ASIN\<close> as their first column,
  and its cell in a row is decided by the row's normalised identifier alone: its image
  under the map built from the \<open>Competitors\<close> sheet, else the identifier itself when it is
  a seed, else missing.  In the end-to-end scenario (seed \<open>B0ABCDEFGH\<close>, one competitor
  \<open>B0XYZ12345\<close>), whatever the network answers and whichever marketplace is selected, the
  product fetch over the union writes two \<open>Products\<close> rows, one per identifier, and both
  are annotated with \<open>B0ABCDEFGH\<close>.
\<close>

theorem search_asin_annotation:
  "(wf_frame df \<and> column df ''ASIN'' = Inr asins \<longrightarrow>
      hd (columns (fst (add_search_asin_to_amazon_frames U df df'
             (build_search_map_from_comp_df U comp_df) seeds))) = ''Search_ASIN'' \<and>
      column (fst (add_search_asin_to_amazon_frames U df df'
             (build_search_map_from_comp_df U comp_df) seeds)) ''Search_ASIN'' =
        Inr (map (\<lambda>c. search_asin_rule (build_search_map_from_comp_df U comp_df) seeds
                        (norm_asin U (Str (astype_str c)))) asins) \<and>
      hd (columns (snd (add_search_asin_to_amazon_frames U df' df
             (build_search_map_from_comp_df U comp_df) seeds))) = ''Search_ASIN'' \<and>
      column (snd (add_search_asin_to_amazon_frames U df' df
             (build_search_map_from_comp_df U comp_df) seeds)) ''Search_ASIN'' =
        Inr (map (\<lambda>c. search_asin_rule (build_search_map_from_comp_df U comp_df) seeds
                        (norm_asin U (Str (astype_str c)))) asins)) \<and>
   (\<exists>wb st. run_products_scraper U w
               (py_join (asin_union U (ascii ''B0ABCDEFGH'') [Str (ascii ''B0XYZ12345'')])) marketplace
             = Inr (wb, st) \<and>
      column (Products wb) ''ASIN'' = Inr [Str (ascii ''B0ABCDEFGH''), Str (ascii ''B0XYZ12345'')] \<and>
      column (fst (add_search_asin_to_amazon_frames U (Products wb) (OtherSellers wb)
                (build_search_map_from_comp_df U scenario_competitors)
                (seed_asins_of U (ascii ''B0ABCDEFGH'')))) ''Search_ASIN''
        = Inr [Str (ascii ''B0ABCDEFGH''), Str (ascii ''B0ABCDEFGH'')])"
proof (intro conjI impI)
  let ?M = "build_search_map_from_comp_df U comp_df"
  have rule: "\<And>c. search_asin_cell U ?M seeds c = search_asin_rule ?M seeds (norm_asin U (Str (astype_str c)))"
    by (simp add: search_asin_cell_rule search_asin_rule_def Let_def)
  assume h: "wf_frame df \<and> column df ''ASIN'' = Inr asins"
  then have wf: "wf_frame df" and a: "column df ''ASIN'' = Inr asins" by simp_all
  show "hd (columns (fst (add_search_asin_to_amazon_frames U df df' ?M seeds))) = ''Search_ASIN''"
    by (simp add: add_search_asin_to_amazon_frames_def attach_column(2)[OF wf a])
  show "column (fst (add_search_asin_to_amazon_frames U df df' ?M seeds)) ''Search_ASIN'' =
        Inr (map (\<lambda>c. search_asin_rule ?M seeds (norm_asin U (Str (astype_str c)))) asins)"
    by (simp add: add_search_asin_to_amazon_frames_def attach_column(1)[OF wf a] rule)
  show "hd (columns (snd (add_search_asin_to_amazon_frames U df' df ?M seeds))) = ''Search_ASIN''"
    by (simp add: add_search_asin_to_amazon_frames_def attach_column(2)[OF wf a])
  show "column (snd (add_search_asin_to_amazon_frames U df' df ?M seeds)) ''Search_ASIN'' =
        Inr (map (\<lambda>c. search_asin_rule ?M seeds (norm_asin U (Str (astype_str c)))) asins)"
    by (simp add: add_search_asin_to_amazon_frames_def attach_column(1)[OF wf a] rule)
next
  let ?s = "ascii ''B0ABCDEFGH''" and ?c = "ascii ''B0XYZ12345''"
  let ?M = "build_search_map_from_comp_df U scenario_competitors"
  have u: "asin_list (py_join (asin_union U ?s [Str ?c])) = [?s, ?c]"
    using asin_list_join[OF asin_union_valid, of U ?s "[Str ?c]"] by (simp add: scenario_union)
  from run_products_rows[of U w "py_join (asin_union U ?s [Str ?c])" marketplace]
  obtain st where run: "run_products_scraper U w (py_join (asin_union U ?s [Str ?c])) marketplace
        = Inr (write_workbook st, st)"
    and keys: "list_all (\<lambda>r. map fst r = final_columns) (all_main st)"
    and ids: "map (\<lambda>r. map_of r ''ASIN'') (all_main st) = map Some [?s, ?c]"
    by (auto simp: u)
  let ?wb = "write_workbook st"
  have col: "column (Products ?wb) ''ASIN'' = Inr [Str ?s, Str ?c]"
    using products_sheet_asin_column[OF keys ids] by simp
  have wf: "wf_frame (Products ?wb)" by (rule products_sheet_wf[OF keys])
  have ne: "?c \<noteq> ?s" by (simp add: ascii_def)
  have c1: "search_asin_cell U ?M [?s] (Str ?s) = Str ?s"
    using ne by (simp add: search_asin_cell_def astype_str_def norm_asin_valid scenario_ids scenario_map)
  have c2: "search_asin_cell U ?M [?s] (Str ?c) = Str ?s"
    by (simp add: search_asin_cell_def astype_str_def norm_asin_valid scenario_ids scenario_map)
       (simp add: ascii_def)
  have "column (fst (add_search_asin_to_amazon_frames U (Products ?wb) (OtherSellers ?wb) ?M
                (seed_asins_of U ?s))) ''Search_ASIN'' = Inr [Str ?s, Str ?s]"
    by (simp add: add_search_asin_to_amazon_frames_def attach_column(1)[OF wf col] scenario_seeds c1 c2)
  with run col show "\<exists>wb st. run_products_scraper U w
               (py_join (asin_union U ?s [Str ?c])) marketplace = Inr (wb, st) \<and>
      column (Products wb) ''ASIN'' = Inr [Str ?s, Str ?c] \<and>
      column (fst (add_search_asin_to_amazon_frames U (Products wb) (OtherSellers wb) ?M
                (seed_asins_of U ?s))) ''Search_ASIN'' = Inr [Str ?s, Str ?s]"
    by blast
qed

theorem search_asin_annotation_witness:
  "wf_frame sample_products \<and>
   column sample_products ''ASIN'' =
     Inr [Str (ascii ''B0ABCDEFGH''), Str (ascii '' b0xyz12345''), Str (ascii ''B0XYZ12346'')] \<and>
   column (fst (add_search_asin_to_amazon_frames sample_ucd sample_products sample_products
             (build_search_map_from_comp_df sample_ucd scenario_competitors) [ascii ''B0ABCDEFGH'']))
      ''Search_ASIN'' = Inr [Str (ascii ''B0ABCDEFGH''), Str (ascii ''B0ABCDEFGH''), NaN]"
proof -
  have wf: "wf_frame sample_products" by (simp add: wf_frame_def sample_products_def)
  have col: "column sample_products ''ASIN'' =
     Inr [Str (ascii ''B0ABCDEFGH''), Str (ascii '' b0xyz12345''), Str (ascii ''B0XYZ12346'')]"
    by (simp add: column_def sample_products_def)
  have n: "norm_asin sample_ucd (Str (ascii '' b0xyz12345'')) = ascii ''B0XYZ12345''"
          "norm_asin sample_ucd (Str (ascii ''B0XYZ12346'')) = ascii ''B0XYZ12346''"
          "norm_asin sample_ucd (Str (ascii ''B0ABCDEFGH'')) = ascii ''B0ABCDEFGH''"
    by (simp_all add: norm_asin_def Let_def py_strip_def py_upper_def upper_cp_def isspace_def
          fullmatch_asin_def asin_char_def ascii_def)
  from search_asin_annotation[of sample_products "[Str (ascii ''B0ABCDEFGH''), Str (ascii '' b0xyz12345''), Str (ascii ''B0XYZ12346'')]"
        sample_ucd sample_products scenario_competitors "[ascii ''B0ABCDEFGH'']"] wf col
  have "column (fst (add_search_asin_to_amazon_frames sample_ucd sample_products sample_products
             (build_search_map_from_comp_df sample_ucd scenario_competitors) [ascii ''B0ABCDEFGH'']))
      ''Search_ASIN'' =
        Inr (map (\<lambda>c. search_asin_rule (build_search_map_from_comp_df sample_ucd scenario_competitors)
                   [ascii ''B0ABCDEFGH''] (norm_asin sample_ucd (Str (astype_str c))))
              [Str (ascii ''B0ABCDEFGH''), Str (ascii '' b0xyz12345''), Str (ascii ''B0XYZ12346'')])"
    by blast
  also have "\<dots> = Inr [Str (ascii ''B0ABCDEFGH''), Str (ascii ''B0ABCDEFGH''), NaN]"
    by (simp add: astype_str_def n scenario_map search_asin_rule_def) (simp add: ascii_def)
  finally show ?thesis using wf col by simp
qed

subsection \<open>Availability extraction\<close>

lemmas availability_defs =
  extract_availability_exact_def selectors_def page_of_def match_phrase_def
  py_split_def py_lower_def lower_cp_def sample_ucd_def isspace_def ascii_def patterns_def
  pat_unavailable_def pat_out_of_stock_def pat_in_stock_def pat_only_left_def
  pat_only_left_in_stock_def re_search_def ci_char_def classify_def slice_def py_strip_def
  rstrip_dots_def plus_rests_def is_digit_def

lemma availability_examples:
  "extract_availability_exact sample_ucd (page_of (ascii ''Only 3 left in stock, order soon''))
     = Inr (Some (ascii ''Only 3 left in stock''))"
  "extract_availability_exact sample_ucd (page_of (ascii ''Currently unavailable''))
     = Inr (Some (ascii ''Currently unavailable''))"
  "extract_availability_exact sample_ucd (page_of (ascii ''Ships in 2 days'')) = Inr None"
  by (simp_all add: availability_defs)

text \<open>Remainders are suffixes, matching is local to the part consumed.\<close>

lemma lit_rest_suffix: "lit_rest l s = Some r \<Longrightarrow> \<exists>x. s = x @ r \<and> length x = length l \<and> lit_rest l x = Some []"
proof (induction l s rule: lit_rest.induct)
  case (1 s)
  then show ?case by simp
next
  case (2 p ps)
  then show ?case by simp
next
  case (3 p ps c cs)
  then have c: "ci_char p c" and r: "lit_rest ps cs = Some r" by (auto split: if_splits)
  from "3.IH"[OF c r] obtain x where "cs = x @ r" "length x = length ps" "lit_rest ps x = Some []" by blast
  with c show ?case by (intro exI[of _ "c # x"]) simp
qed

lemma lit_rest_append: "lit_rest l s = Some r \<Longrightarrow> lit_rest l (s @ t) = Some (r @ t)"
  by (induction l s rule: lit_rest.induct) (auto split: if_splits)

lemma lit_rest_append_mem:
  "r \<in> set (case lit_rest l s of None \<Rightarrow> [] | Some r \<Rightarrow> [r]) \<Longrightarrow>
   r @ t \<in> set (case lit_rest l (s @ t) of None \<Rightarrow> [] | Some r \<Rightarrow> [r])"
  by (cases "lit_rest l s") (simp_all add: lit_rest_append)

lemma plus_rests_mem:
  "r \<in> set (plus_rests P s) \<longleftrightarrow> (\<exists>k. 1 \<le> k \<and> k \<le> length (takeWhile P s) \<and> r = drop k s)"
  by (auto simp: plus_rests_def)

lemma takeWhile_append_len: "length (takeWhile P s) \<le> length (takeWhile P (s @ t))"
  by (induction s) auto

lemma plus_rests_append: "r \<in> set (plus_rests P s) \<Longrightarrow> r @ t \<in> set (plus_rests P (s @ t))"
proof -
  assume "r \<in> set (plus_rests P s)"
  then obtain k where k: "1 \<le> k" "k \<le> length (takeWhile P s)" "r = drop k s"
    by (auto simp: plus_rests_mem)
  have "length (takeWhile P s) \<le> length s" by (rule length_takeWhile_le)
  with k have "k \<le> length s" by simp
  then have "drop k (s @ t) = drop k s @ t" by simp
  moreover have "k \<le> length (takeWhile P (s @ t))"
    using k(2) takeWhile_append_len[of P s t] by simp
  ultimately show ?thesis using k by (auto simp: plus_rests_mem)
qed

lemma take_in_run: "k \<le> length (takeWhile P s) \<Longrightarrow> list_all P (take k s)"
proof (induction s arbitrary: k)
  case Nil
  then show ?case by simp
next
  case (Cons c cs)
  then show ?case by (cases k) (auto split: if_splits)
qed

lemma plus_rests_suffix:
  assumes "r \<in> set (plus_rests P s)"
  shows "\<exists>x. s = x @ r \<and> x \<noteq> [] \<and> list_all P x \<and> [] \<in> set (plus_rests P x)"
proof -
  from assms obtain k where k: "1 \<le> k" "k \<le> length (takeWhile P s)" "r = drop k s"
    by (auto simp: plus_rests_mem)
  let ?x = "take k s"
  have ks: "k \<le> length s" using k(2) length_takeWhile_le[of P s] by simp
  have all: "list_all P ?x" by (rule take_in_run[OF k(2)])
  then have tw: "takeWhile P ?x = ?x" by (simp add: list_all_iff)
  have "[] \<in> set (plus_rests P ?x)"
    using k(1) ks by (auto simp: plus_rests_mem tw intro!: exI[of _ k])
  moreover have "?x \<noteq> []" using k(1) ks by auto
  ultimately show ?thesis using k(3) all by (intro exI[of _ ?x]) simp
qed

lemma rx_rests_append: "r \<in> set (rx_rests U a s) \<Longrightarrow> r @ t \<in> set (rx_rests U a (s @ t))"
proof (induction a arbitrary: s r)
  case (Lit l)
  then show ?case using lit_rest_append_mem[of r l s t] by simp
next
  case SpacePlus
  then show ?case by (simp add: plus_rests_append)
next
  case DigitPlus
  then show ?case by (simp add: plus_rests_append)
next
  case (Then a b)
  then show ?case by fastforce
next
  case (Maybe a)
  then show ?case by auto
qed

lemma rx_rests_local:
  "r \<in> set (rx_rests U a s) \<Longrightarrow> \<exists>x. s = x @ r \<and> [] \<in> set (rx_rests U a x)"
proof (induction a arbitrary: s r)
  case (Lit l)
  then have "lit_rest l s = Some r" by (auto split: option.splits)
  from lit_rest_suffix[OF this] show ?case by auto
next
  case SpacePlus
  from plus_rests_suffix[of r isspace s] SpacePlus show ?case by auto
next
  case DigitPlus
  from plus_rests_suffix[of r "is_digit U" s] DigitPlus show ?case by auto
next
  case (Then a b)
  then obtain r1 where r1: "r1 \<in> set (rx_rests U a s)" and r: "r \<in> set (rx_rests U b r1)" by auto
  from Then.IH(1)[OF r1] obtain x1 where x1: "s = x1 @ r1" "[] \<in> set (rx_rests U a x1)" by blast
  from Then.IH(2)[OF r] obtain x2 where x2: "r1 = x2 @ r" "[] \<in> set (rx_rests U b x2)" by blast
  from rx_rests_append[OF x1(2), of x2] have "x2 \<in> set (rx_rests U a (x1 @ x2))" by simp
  with x2(2) have "[] \<in> set (rx_rests U (Then a b) (x1 @ x2))" by auto
  with x1(1) x2(1) show ?case by (intro exI[of _ "x1 @ x2"]) simp
next
  case (Maybe a)
  then show ?case by auto
qed

lemma search_from_sound:
  "search_from U r i0 s = Some (a, b) \<Longrightarrow>
   \<exists>k rest. a = i0 + k \<and> k \<le> length s \<and> rest \<in> set (rx_rests U r (drop k s)) \<and>
            b = a + (length (drop k s) - length rest)"
proof (induction U r i0 s rule: search_from.induct)
  case (1 U r i)
  then show ?case by (auto split: list.splits intro!: exI[of _ 0])
next
  case (2 U r i c cs)
  show ?case
  proof (cases "rx_rests U r (c # cs)")
    case Nil
    with "2.prems" have "search_from U r (Suc i) cs = Some (a, b)" by simp
    from "2.IH"[OF Nil this] obtain k rest where
      "a = Suc i + k" "k \<le> length cs" "rest \<in> set (rx_rests U r (drop k cs))"
      "b = a + (length (drop k cs) - length rest)" by blast
    then show ?thesis
      by (intro exI[of _ "Suc k"] exI[of _ rest]) simp
  next
    case (Cons rest others)
    with "2.prems" show ?thesis
      by (intro exI[of _ 0] exI[of _ rest]) auto
  qed
qed

text \<open>On ASCII text the search in the lower-cased text is the search in the text.\<close>

lemma ci_char_lower: "lower_char p \<Longrightarrow> c < 128 \<Longrightarrow> ci_char p (ascii_lower c) = ci_char p c"
  by (auto simp: ci_char_def ascii_lower_def lower_char_def)

lemma isspace_lower: "c < 128 \<Longrightarrow> isspace (ascii_lower c) = isspace c"
  by (auto simp: isspace_def ascii_lower_def)

lemma is_digit_lower: "c < 128 \<Longrightarrow> is_digit U (ascii_lower c) = is_digit U c"
  by (auto simp: is_digit_def ascii_lower_def)

lemma py_lower_ascii: "ascii_text s \<Longrightarrow> py_lower U s = map ascii_lower s"
  by (induction s) (auto simp: py_lower_def lower_cp_def ascii_lower_def ascii_text_def)

lemma lit_rest_lower:
  "list_all lower_char l \<Longrightarrow> ascii_text s \<Longrightarrow>
   lit_rest l (map ascii_lower s) = map_option (map ascii_lower) (lit_rest l s)"
  by (induction l s rule: lit_rest.induct) (auto simp: ci_char_lower ascii_text_def)

lemma takeWhile_lower:
  "(\<And>c. c < 128 \<Longrightarrow> P (ascii_lower c) = P c) \<Longrightarrow> ascii_text s \<Longrightarrow>
   takeWhile P (map ascii_lower s) = map ascii_lower (takeWhile P s)"
  by (induction s) (auto simp: ascii_text_def)

lemma plus_rests_lower:
  assumes "\<And>c. c < 128 \<Longrightarrow> P (ascii_lower c) = P c" "ascii_text s"
  shows "plus_rests P (map ascii_lower s) = map (map ascii_lower) (plus_rests P s)"
  using takeWhile_lower[of P s, OF assms] by (simp add: plus_rests_def drop_map o_def)

lemma ascii_text_suffix: "ascii_text (x @ r) \<Longrightarrow> ascii_text r"
  by (simp add: ascii_text_def)

lemma rx_rests_ascii: "ascii_text s \<Longrightarrow> r \<in> set (rx_rests U a s) \<Longrightarrow> ascii_text r"
  using rx_rests_local[of r U a s] by (auto simp: ascii_text_def)

lemma rx_rests_lower:
  "lower_lits a \<Longrightarrow> ascii_text s \<Longrightarrow>
   rx_rests U a (map ascii_lower s) = map (map ascii_lower) (rx_rests U a s)"
proof (induction a arbitrary: s)
  case (Lit l)
  then show ?case by (cases "lit_rest l s") (simp_all add: lit_rest_lower)
next
  case SpacePlus
  then show ?case by (simp add: plus_rests_lower isspace_lower)
next
  case DigitPlus
  then show ?case by (simp add: plus_rests_lower is_digit_lower)
next
  case (Then a b)
  have "\<And>r. r \<in> set (rx_rests U a s) \<Longrightarrow>
          rx_rests U b (map ascii_lower r) = map (map ascii_lower) (rx_rests U b r)"
    using Then.IH(2) Then.prems rx_rests_ascii[of s _ U a] by simp
  then have eq: "map (\<lambda>r. rx_rests U b (map ascii_lower r)) (rx_rests U a s)
           = map (\<lambda>r. map (map ascii_lower) (rx_rests U b r)) (rx_rests U a s)"
    by (intro map_cong) simp_all
  have "rx_rests U (Then a b) (map ascii_lower s)
          = concat (map (rx_rests U b) (map (map ascii_lower) (rx_rests U a s)))"
    using Then.IH(1)[of s] Then.prems by simp
  also have "\<dots> = concat (map (\<lambda>r. rx_rests U b (map ascii_lower r)) (rx_rests U a s))"
    by (simp add: o_def)
  also have "\<dots> = concat (map (\<lambda>r. map (map ascii_lower) (rx_rests U b r)) (rx_rests U a s))"
    by (simp only: eq)
  also have "\<dots> = map (map ascii_lower) (rx_rests U (Then a b) s)"
    by (simp add: map_concat o_def)
  finally show ?case .
next
  case (Maybe a)
  then show ?case by simp
qed

lemma re_search_consumes:
  assumes "lower_lits pat" "ascii_text txt" "re_search U pat (map ascii_lower txt) = Some (i, j)"
  shows "[] \<in> set (rx_rests U pat (slice txt i j))"
proof -
  let ?low = "map ascii_lower txt"
  from search_from_sound[OF assms(3)[unfolded re_search_def]] obtain rest where
    i: "i \<le> length ?low" and rest: "rest \<in> set (rx_rests U pat (drop i ?low))"
    and j: "j = i + (length (drop i ?low) - length rest)" by auto
  have a: "ascii_text (drop i txt)" using assms(2) by (auto simp: ascii_text_def list_all_iff dest: in_set_dropD)
  have "drop i ?low = map ascii_lower (drop i txt)" by (simp add: drop_map)
  with rest have "rest \<in> set (map (map ascii_lower) (rx_rests U pat (drop i txt)))"
    by (simp only: rx_rests_lower[OF assms(1) a])
  then obtain rest' where r': "rest' \<in> set (rx_rests U pat (drop i txt))" and l: "length rest' = length rest"
    by auto
  from rx_rests_local[OF r'] obtain x where x: "drop i txt = x @ rest'" "[] \<in> set (rx_rests U pat x)"
    by blast
  from x(1) have "length (drop i txt) = length x + length rest'" by (metis length_append)
  with j l have "j - i = length x" by simp
  with x(1) have "slice txt i j = x" by (simp add: slice_def)
  with x(2) show ?thesis by simp
qed

text \<open>A phrase that one of the four patterns matches in full begins and ends with a
  letter, so trimming leaves it as it is.\<close>

lemma letter_match_plain:
  "97 \<le> p \<Longrightarrow> p \<le> 122 \<Longrightarrow> ci_char p c \<Longrightarrow> \<not> isspace c \<and> c \<noteq> 46"
  by (auto simp: ci_char_def isspace_def)

lemma lit_full_ends:
  "lit_rest l x = Some [] \<Longrightarrow> l \<noteq> [] \<Longrightarrow> 97 \<le> last l \<Longrightarrow> last l \<le> 122 \<Longrightarrow>
   x \<noteq> [] \<and> \<not> isspace (last x) \<and> last x \<noteq> 46"
proof (induction l x rule: lit_rest.induct)
  case (1 s)
  then show ?case by simp
next
  case (2 p ps)
  then show ?case by simp
next
  case (3 p ps c cs)
  show ?case
  proof (cases "ps = []")
    case True
    with "3.prems" have "cs = []" "ci_char p c" by (auto split: if_splits)
    with "3.prems" True letter_match_plain[of p c] show ?thesis by simp
  next
    case False
    with "3.prems" have c: "ci_char p c" and r: "lit_rest ps cs = Some []" by (auto split: if_splits)
    from "3.IH"[OF c r False] "3.prems" False have "cs \<noteq> [] \<and> \<not> isspace (last cs) \<and> last cs \<noteq> 46"
      by simp
    then show ?thesis by simp
  qed
qed

lemma lit_starts:
  "lit_rest (p # ps) s = Some r \<Longrightarrow> 97 \<le> p \<Longrightarrow> p \<le> 122 \<Longrightarrow> s \<noteq> [] \<and> \<not> isspace (hd s)"
  by (cases s) (auto split: if_splits dest: letter_match_plain)

lemma then_full:
  assumes "[] \<in> set (rx_rests U (Then a b) s)"
  shows "\<exists>r y. r \<in> set (rx_rests U a s) \<and> [] \<in> set (rx_rests U b r) \<and> s = y @ r"
proof -
  from assms obtain r where r: "r \<in> set (rx_rests U a s)" "[] \<in> set (rx_rests U b r)" by auto
  from rx_rests_local[OF r(1)] obtain y where "s = y @ r" by blast
  with r show ?thesis by blast
qed

lemma never_empty_match: "never_empty a \<Longrightarrow> [] \<in> set (rx_rests U a s) \<Longrightarrow> s \<noteq> []"
proof (induction a arbitrary: s)
  case (Lit l)
  then show ?case by (cases l) (auto split: option.splits)
next
  case SpacePlus
  then show ?case by (auto simp: plus_rests_def)
next
  case DigitPlus
  then show ?case by (auto simp: plus_rests_def)
next
  case (Then a b)
  from then_full[OF Then.prems(2)] obtain r y where
    r: "r \<in> set (rx_rests U a s)" "[] \<in> set (rx_rests U b r)" "s = y @ r" by blast
  show ?case
  proof
    assume e: "s = []"
    with r have "[] \<in> set (rx_rests U a [])" "[] \<in> set (rx_rests U b [])" by simp_all
    with Then.IH(1)[of "[]"] Then.IH(2)[of "[]"] Then.prems(1) show False by auto
  qed
next
  case (Maybe a)
  then show ?case by simp
qed

lemma ends_letter_match:
  "ends_letter a \<Longrightarrow> [] \<in> set (rx_rests U a s) \<Longrightarrow> s \<noteq> [] \<Longrightarrow>
   \<not> isspace (last s) \<and> last s \<noteq> 46"
proof (induction a arbitrary: s)
  case (Lit l)
  then have f: "lit_rest l s = Some []" by (auto split: option.splits)
  show ?case
  proof (cases "l = []")
    case True
    with f Lit.prems(3) show ?thesis by simp
  next
    case False
    with Lit.prems(1) lit_full_ends[OF f False] show ?thesis by simp
  qed
next
  case SpacePlus
  then show ?case by simp
next
  case DigitPlus
  then show ?case by simp
next
  case (Then a b)
  from then_full[OF Then.prems(2)] obtain r y where
    r: "r \<in> set (rx_rests U a s)" "[] \<in> set (rx_rests U b r)" "s = y @ r" by blast
  from Then.prems(1) have eb: "ends_letter b" and alt: "never_empty b \<or> ends_letter a" by simp_all
  show ?case
  proof (cases "r = []")
    case True
    with r(2) never_empty_match[of b U "[]"] alt have ea: "ends_letter a" by auto
    from True r(1,3) have "[] \<in> set (rx_rests U a s)" by simp
    from Then.IH(1)[OF ea this Then.prems(3)] show ?thesis .
  next
    case False
    from Then.IH(2)[OF eb r(2) False] r(3) False show ?thesis by simp
  qed
next
  case (Maybe a)
  then have "[] \<in> set (rx_rests U a s)" by auto
  with Maybe show ?case by simp
qed

lemma starts_letter_match:
  "starts_letter a \<Longrightarrow> r \<in> set (rx_rests U a s) \<Longrightarrow> s \<noteq> [] \<and> \<not> isspace (hd s)"
proof (induction a arbitrary: s r rule: starts_letter.induct)
  case (1 l)
  then obtain p ps where l: "l = p # ps" by (cases l) auto
  from 1 have "lit_rest l s = Some r" by (auto split: option.splits)
  with l 1 lit_starts[of p ps s r] show ?case by simp
next
  case (2 a b)
  then obtain r1 where "r1 \<in> set (rx_rests U a s)" by auto
  with 2 show ?case by simp
qed simp_all

lemma patterns_letters:
  "pat \<in> set patterns \<Longrightarrow> starts_letter pat \<and> ends_letter pat \<and> never_empty pat \<and> lower_lits pat"
  by (auto simp: patterns_def pat_unavailable_def pat_out_of_stock_def pat_only_left_in_stock_def
        pat_only_left_def pat_in_stock_def ascii_def lower_char_def)

lemma rstrip_dots_fixed:
  assumes "x \<noteq> []" "\<not> isspace (last x)" "last x \<noteq> 46"
  shows "rstrip_dots x = x"
proof -
  from assms have "rev x \<noteq> []" "\<not> (hd (rev x) = 46 \<or> isspace (hd (rev x)))" by (auto simp: hd_rev)
  then have "dropWhile (\<lambda>c. c = 46 \<or> isspace c) (rev x) = rev x" by (cases "rev x") auto
  then show ?thesis by (simp add: rstrip_dots_def)
qed

lemma phrase_trimmed:
  assumes "pat \<in> set patterns" "[] \<in> set (rx_rests U pat x)"
  shows "rstrip_dots (py_strip x) = x"
proof -
  from patterns_letters[OF assms(1)] have sl: "starts_letter pat" and el: "ends_letter pat"
    and ne: "never_empty pat" by simp_all
  from never_empty_match[OF ne assms(2)] have e1: "x \<noteq> []" .
  from ends_letter_match[OF el assms(2) e1] e1 have e: "x \<noteq> []" "\<not> isspace (last x)" "last x \<noteq> 46"
    by simp_all
  from starts_letter_match[OF sl assms(2)] have s: "\<not> isspace (hd x)" by simp
  have "py_strip x = x" by (rule py_strip_fixed[OF e(1) s e(2)])
  with rstrip_dots_fixed[OF e] show ?thesis by simp
qed

text \<open>The chain of tests returns a canonical phrase as soon as one test matches.\<close>

lemma re_search_start: "rx_rests U r s \<noteq> [] \<Longrightarrow> re_search U r s \<noteq> None"
  by (cases s; cases "rx_rests U r s") (auto simp: re_search_def)

lemma digit_search_from:
  "\<exists>c\<in>set s. is_digit U c \<Longrightarrow>
   \<exists>k n. search_from U DigitPlus i0 s = Some (i0 + k, i0 + k + n) \<and> 1 \<le> n \<and>
         k + n \<le> length s \<and> list_all (is_digit U) (take n (drop k s))"
proof (induction s arbitrary: i0)
  case Nil
  then show ?case by simp
next
  case (Cons c cs)
  show ?case
  proof (cases "is_digit U c")
    case True
    let ?n = "length (takeWhile (is_digit U) (c # cs))"
    have n1: "1 \<le> ?n" using True by simp
    have nl: "?n \<le> length (c # cs)" by (rule length_takeWhile_le)
    have "rev [1..<Suc ?n] = ?n # rev [1..<?n]" using n1 by (simp add: upt_rec[of 1 "Suc ?n"] upt_Suc)
    then have "plus_rests (is_digit U) (c # cs) = drop ?n (c # cs) # map (\<lambda>k. drop k (c # cs)) (rev [1..<?n])"
      by (simp add: plus_rests_def)
    then have "search_from U DigitPlus i0 (c # cs) = Some (i0, i0 + (length (c # cs) - length (drop ?n (c # cs))))"
      by simp
    moreover have "length (c # cs) - length (drop ?n (c # cs)) = ?n" using nl by simp
    moreover have "list_all (is_digit U) (take ?n (c # cs))" by (rule take_in_run) simp
    ultimately show ?thesis using n1 nl
      by (intro exI[of _ 0] exI[of _ ?n]) simp
  next
    case False
    then have "plus_rests (is_digit U) (c # cs) = []" by (simp add: plus_rests_def)
    then have s: "search_from U DigitPlus i0 (c # cs) = search_from U DigitPlus (Suc i0) cs" by simp
    from False Cons.prems have "\<exists>c\<in>set cs. is_digit U c" by auto
    from Cons.IH[OF this, of "Suc i0"] obtain k n where
      "search_from U DigitPlus (Suc i0) cs = Some (Suc i0 + k, Suc i0 + k + n)" "1 \<le> n"
      "k + n \<le> length cs" "list_all (is_digit U) (take n (drop k cs))" by blast
    with s show ?thesis by (intro exI[of _ "Suc k"] exI[of _ n]) simp
  qed
qed

lemma digit_search:
  assumes "\<exists>c\<in>set x. is_digit U c"
  shows "\<exists>i j. re_search U DigitPlus x = Some (i, j) \<and> slice x i j \<noteq> [] \<and>
               list_all (is_digit U) (slice x i j)"
proof -
  from digit_search_from[OF assms, of 0] obtain k n where
    s: "search_from U DigitPlus 0 x = Some (k, k + n)" and n: "1 \<le> n" "k + n \<le> length x"
    and d: "list_all (is_digit U) (take n (drop k x))" by auto
  have "slice x k (k + n) = take n (drop k x)" by (simp add: slice_def)
  moreover have "take n (drop k x) \<noteq> []" using n by auto
  ultimately show ?thesis using s d by (auto simp: re_search_def)
qed

lemma only_left_has_digit:
  assumes "r \<in> set (rx_rests U pat_only_left s)"
  shows "\<exists>c\<in>set s. is_digit U c"
proof -
  from assms obtain r1 r2 r3 where
    r1: "r1 \<in> set (rx_rests U (Lit (ascii ''only'')) s)" and
    r2: "r2 \<in> set (rx_rests U SpacePlus r1)" and
    r3: "r3 \<in> set (plus_rests (is_digit U) r2)"
    by (auto simp: pat_only_left_def)
  from plus_rests_suffix[OF r3] obtain d where d: "r2 = d @ r3" "d \<noteq> []" "list_all (is_digit U) d" by blast
  from rx_rests_local[OF r2] obtain y2 where "r1 = y2 @ r2" by blast
  moreover from rx_rests_local[OF r1] obtain y1 where "s = y1 @ r1" by blast
  ultimately have "set d \<subseteq> set s" using d(1) by auto
  moreover from d(2,3) have "hd d \<in> set d" "is_digit U (hd d)" by (auto simp: list_all_iff)
  ultimately show ?thesis by blast
qed

lemma only_left_search_digit:
  assumes "re_search U pat_only_left x \<noteq> None"
  shows "\<exists>c\<in>set x. is_digit U c"
proof -
  from assms obtain i j where "search_from U pat_only_left 0 x = Some (i, j)"
    by (auto simp: re_search_def)
  from search_from_sound[OF this] obtain k rest where
    "rest \<in> set (rx_rests U pat_only_left (drop k x))" by blast
  from only_left_has_digit[OF this] show ?thesis by (auto dest: in_set_dropD)
qed

lemma classify_canonical:
  assumes "re_search U pat_only_left x \<noteq> None \<or> re_search U pat_unavailable x \<noteq> None \<or>
           re_search U pat_out_of_stock x \<noteq> None \<or> re_search U pat_in_stock x \<noteq> None"
  shows "\<exists>p. classify U x = Inr (Some p) \<and> canonical U p"
proof (cases "re_search U pat_only_left x \<noteq> None")
  case True
  from digit_search[OF only_left_search_digit[OF True]] obtain i j where
    d: "re_search U DigitPlus x = Some (i, j)" "slice x i j \<noteq> []" "list_all (is_digit U) (slice x i j)"
    by blast
  with True have "classify U x = Inr (Some (ascii ''Only '' @ slice x i j @ ascii '' left in stock''))"
    by (simp add: classify_def)
  moreover have "canonical U (ascii ''Only '' @ slice x i j @ ascii '' left in stock'')"
    using d(2,3) by (auto simp: canonical_def)
  ultimately show ?thesis by blast
next
  case False
  with assms show ?thesis by (auto simp: classify_def canonical_def)
qed

lemma full_match_test:
  assumes "pat \<in> set patterns" "[] \<in> set (rx_rests U pat x)"
  shows "re_search U pat_only_left x \<noteq> None \<or> re_search U pat_unavailable x \<noteq> None \<or>
         re_search U pat_out_of_stock x \<noteq> None \<or> re_search U pat_in_stock x \<noteq> None"
proof -
  consider "pat = pat_unavailable" | "pat = pat_out_of_stock" | "pat = pat_only_left_in_stock"
    | "pat = pat_in_stock" using assms(1) by (auto simp: patterns_def)
  then show ?thesis
  proof cases
    case 1
    with assms(2) have "rx_rests U pat_unavailable x \<noteq> []" by auto
    then show ?thesis by (simp add: re_search_start)
  next
    case 2
    with assms(2) have "rx_rests U pat_out_of_stock x \<noteq> []" by auto
    then show ?thesis by (simp add: re_search_start)
  next
    case 3
    with assms(2) have "rx_rests U pat_only_left x \<noteq> []"
      by (auto simp: pat_only_left_in_stock_def)
    then show ?thesis by (simp add: re_search_start)
  next
    case 4
    with assms(2) have "rx_rests U pat_in_stock x \<noteq> []" by auto
    then show ?thesis by (simp add: re_search_start)
  qed
qed

lemma match_patterns_canonical:
  assumes "ascii_text txt" "set pats \<subseteq> set patterns"
  shows "match_patterns U txt (map ascii_lower txt) pats = Inr None \<or>
         (\<exists>p. match_patterns U txt (map ascii_lower txt) pats = Inr (Some p) \<and> canonical U p)"
  using assms(2)
proof (induction pats)
  case Nil
  then show ?case by simp
next
  case (Cons pat pats)
  then have mem: "pat \<in> set patterns" and rest: "set pats \<subseteq> set patterns" by simp_all
  show ?case
  proof (cases "re_search U pat (map ascii_lower txt)")
    case None
    with Cons.IH[OF rest] show ?thesis by simp
  next
    case (Some ij)
    obtain i j where ij: "ij = (i, j)" by (cases ij)
    from patterns_letters[OF mem] have ll: "lower_lits pat" by simp
    from re_search_consumes[OF ll assms(1) Some[unfolded ij]]
    have full: "[] \<in> set (rx_rests U pat (slice txt i j))" .
    from phrase_trimmed[OF mem full] have t: "rstrip_dots (py_strip (slice txt i j)) = slice txt i j" .
    from classify_canonical[OF full_match_test[OF mem full]] obtain p where
      "classify U (slice txt i j) = Inr (Some p)" "canonical U p" by blast
    with Some ij t show ?thesis by simp
  qed
qed

lemma split_acc_chars: "set (concat (split_acc cur s)) \<subseteq> set cur \<union> set s"
  by (induction cur s rule: split_acc.induct) auto

lemma py_join_set: "set (py_join ws) \<subseteq> set (concat ws) \<union> {32}"
  by (induction ws rule: py_join.induct) auto

lemma collapse_ascii: "ascii_text s \<Longrightarrow> ascii_text (py_join (py_split s))"
proof -
  assume a: "ascii_text s"
  have "set (py_join (py_split s)) \<subseteq> set s \<union> {32}"
    using py_join_set[of "py_split s"] split_acc_chars[of "[]" s] by (auto simp: py_split_def)
  with a show ?thesis by (auto simp: ascii_text_def list_all_iff)
qed

lemma match_phrase_ascii:
  assumes "ascii_text src"
  shows "match_phrase U src = Inr None \<or> (\<exists>p. match_phrase U src = Inr (Some p) \<and> canonical U p)"
proof (cases "src = []")
  case True
  then show ?thesis by (simp add: match_phrase_def)
next
  case False
  let ?txt = "py_join (py_split src)"
  have a: "ascii_text ?txt" by (rule collapse_ascii[OF assms])
  from match_patterns_canonical[OF a subset_refl, of U] False show ?thesis
    by (simp add: match_phrase_def Let_def py_lower_ascii[OF a])
qed

lemma canonical_nonempty: "canonical U p \<Longrightarrow> p \<noteq> []"
  by (auto simp: canonical_def ascii_def)

lemma try_selectors_ascii:
  assumes "ascii_text (page_text doc)" "\<And>sel t. node_text doc sel = Some t \<Longrightarrow> ascii_text t"
  shows "try_selectors U doc sels = Inr None \<or>
         (\<exists>p. try_selectors U doc sels = Inr (Some p) \<and> canonical U p)"
proof (induction sels)
  case Nil
  from match_phrase_ascii[OF assms(1), of U] show ?case by simp
next
  case (Cons sel sels)
  show ?case
  proof (cases "node_text doc sel")
    case None
    with Cons show ?thesis by simp
  next
    case (Some t)
    from match_phrase_ascii[OF assms(2)[OF Some], of U] show ?thesis
    proof
      assume "match_phrase U t = Inr None"
      with Some Cons show ?thesis by simp
    next
      assume "\<exists>p. match_phrase U t = Inr (Some p) \<and> canonical U p"
      then obtain p where p: "match_phrase U t = Inr (Some p)" "canonical U p" by blast
      with canonical_nonempty[OF p(2)] Some show ?thesis by simp
    qed
  qed
qed

lemma availability_ascii_canonical:
  assumes "ascii_text (page_text doc)" "\<And>sel t. node_text doc sel = Some t \<Longrightarrow> ascii_text t"
  shows "extract_availability_exact U doc = Inr None \<or>
         (\<exists>p. extract_availability_exact U doc = Inr (Some p) \<and> canonical U p)"
  unfolding extract_availability_exact_def by (rule try_selectors_ascii[OF assms])

text \<open>
  Claim C5 (the code departs from it).  The three examples of the claim hold (lemma
  \<open>availability_examples\<close>), and on every document whose texts are ASCII the result is
  absent or one of the four canonical phrases (lemma \<open>availability_ascii_canonical\<close>).
  But \<open>_match_phrase\<close> searches the lower-cased text and cuts the span it finds out of the
  original text, and \<open>str.lower\<close> turns U+0130 into two code points: on a page whose
  text is \<open>I In stock\<close> with that capital I, the span of \<open>in stock\<close> in the lower-cased
  text cuts \<open>n stock\<close> out of the original, none of the four tests matches it, and the
  function returns \<open>n stock\<close>, which is neither absent nor one of the four canonical
  phrases.
\<close>

theorem availability_dotted_capital_i:
  "extract_availability_exact sample_ucd dotted_page = Inr (Some (ascii ''n stock'')) \<and>
   \<not> canonical sample_ucd (ascii ''n stock'')"
  by (simp add: availability_defs dotted_page_def canonical_def)

subsection \<open>Competitor discovery: skipped identifiers and aborted runs\<close>

lemma reveal_calm: "reveal one_card 0 (- 1) 0 = Some (Inr 11)"
  by (simp add: reveal.simps max_stall_loops_def one_card_def)

lemma logged_results [simp]: "competitor_results (logged evs st) = competitor_results st"
  by (simp add: logged_def)

lemma logged_events [simp]: "events (logged evs st) = events st @ evs"
  by (simp add: logged_def)

lemma logged_logged [simp]: "logged evs' (logged evs st) = logged (evs @ evs') st"
  by (simp add: logged_def)






lemma only_domain_append [simp]: "only_domain d (xs @ ys) \<longleftrightarrow> only_domain d xs \<and> only_domain d ys"
  by (simp add: only_domain_def)

lemma extends_and_then:
  assumes "extends d st f" "\<And>st'. extends d st' (g st')"
  shows "extends d st (and_then f g)"
proof (cases f)
  case (Proceed st1)
  with assms(1) obtain e1 where 1: "events st1 = events st @ e1" "only_domain d e1"
    by (auto simp: extends_def flow_state_def)
  from assms(2)[of st1] obtain e2 where 2: "events (flow_state (g st1)) = events st1 @ e2" "only_domain d e2"
    by (auto simp: extends_def)
  from 1 2 have "events (flow_state (g st1)) = events st @ (e1 @ e2) \<and> only_domain d (e1 @ e2)" by simp
  then show ?thesis unfolding extends_def and_then_def Proceed by (simp only: flow.case) blast
next
  case (Skip st1)
  with assms(1) show ?thesis by (simp add: extends_def and_then_def)
next
  case (Abort e st1)
  with assms(1) show ?thesis by (simp add: extends_def and_then_def)
qed

lemma extends_logged:
  "only_domain d evs \<Longrightarrow> extends d st (Proceed (logged evs st))"
  "only_domain d evs \<Longrightarrow> extends d st (Skip (logged evs st))"
  "only_domain d evs \<Longrightarrow> extends d st (Abort e (logged evs st))"
  by (auto simp: extends_def flow_state_def)

lemma od_simps [simp]:
  "only_domain d []"
  "only_domain d (HardReload d # evs) = only_domain d evs"
  "only_domain d (SelectMarketplace d # evs) = only_domain d evs"
  "only_domain d (SoftReset # evs) = only_domain d evs"
  "only_domain d (EnterAsin a # evs) = only_domain d evs"
  "only_domain d (ClickGetCompetitors # evs) = only_domain d evs"
  "only_domain d (AwaitResults a # evs) = only_domain d evs"
  "only_domain d (RevealCards n # evs) = only_domain d evs"
  "only_domain d (StartChrome # evs) = only_domain d evs"
  "only_domain d (SignIn # evs) = only_domain d evs"
  "only_domain d (OpenCerebro # evs) = only_domain d evs"
  "only_domain d (Quit # evs) = only_domain d evs"
  "only_domain d (WriteWorkbook # evs) = only_domain d evs"
  by (simp_all add: only_domain_def domain_of_def)

lemma extends_hard_reload: "extends d st' (hard_reload d ans st')"
  by (cases ans) (simp_all add: hard_reload_def extends_logged)

lemma extends_hard_reload_logged:
  "only_domain d evs \<Longrightarrow> extends d st (hard_reload d ans (logged evs st))"
  by (cases ans) (simp_all add: hard_reload_def extends_logged)

lemma extends_reset: "extends d st (stage_reset d a st)"
  by (simp add: stage_reset_def extends_logged extends_hard_reload_logged)

lemma extends_enter: "extends d st (stage_enter asin a st)"
  by (cases "enter_asin a") (simp_all add: stage_enter_def extends_logged)

lemma extends_click: "extends d st (stage_click d asin a st)"
proof (cases "first_click a")
  case None
  then show ?thesis by (simp add: stage_click_def extends_logged)
next
  case (Some e)
  show ?thesis
  proof (cases "e = TimeoutException")
    case False
    with Some show ?thesis by (simp add: stage_click_def extends_logged)
  next
    case True
    have "extends d st (and_then (hard_reload d (reload_after_click a) (logged [ClickGetCompetitors] st))
              (\<lambda>st'. case retry_click a of
                        None \<Rightarrow> Proceed (logged [EnterAsin asin, ClickGetCompetitors] st')
                      | Some e' \<Rightarrow> Skip (logged [EnterAsin asin, ClickGetCompetitors] st')))"
      by (rule extends_and_then) (auto simp: extends_hard_reload_logged extends_logged split: option.splits)
    with Some True show ?thesis by (simp add: stage_click_def)
  qed
qed

lemma extends_wait: "extends d st (stage_wait d asin a st)"
proof (cases "first_wait a")
  case None
  then show ?thesis by (simp add: stage_wait_def extends_logged)
next
  case (Some e)
  show ?thesis
  proof (cases "e = TimeoutException")
    case False
    with Some show ?thesis by (simp add: stage_wait_def extends_logged)
  next
    case True
    have "extends d st (and_then (hard_reload d (reload_after_wait a) (logged [AwaitResults asin] st))
                    (\<lambda>st'. case retry_wait a of
                              None \<Rightarrow> Proceed (logged [EnterAsin asin, ClickGetCompetitors, AwaitResults asin] st')
                            | Some e' \<Rightarrow> Skip (logged [EnterAsin asin, ClickGetCompetitors, AwaitResults asin] st')))"
      by (rule extends_and_then) (auto simp: extends_hard_reload_logged extends_logged split: option.splits)
    with Some True show ?thesis by (simp add: stage_wait_def extends_logged)
  qed
qed

lemma extends_refl: "extends d st (Proceed st)" "extends d st (Abort e st)"
  by (auto simp: extends_def flow_state_def)

lemma extends_harvest: "stage_harvest d asin a st = Some f \<Longrightarrow> extends d st f"
  by (auto simp: stage_harvest_def extends_def flow_state_def logged_def
           split: if_splits option.splits sum.splits prod.splits)

lemma extends_trans:
  assumes "extends d st f" "extends d (flow_state f) g"
  shows "extends d st g"
  using assms by (auto simp: extends_def)

lemma extends_iteration:
  assumes "iteration_step d asin a st = Some f"
  shows "extends d st f"
proof -
  let ?pre = "and_then (and_then (and_then (stage_reset d a st) (stage_enter asin a))
                      (stage_click d asin a)) (stage_wait d asin a)"
  have pre: "extends d st ?pre"
    by (intro extends_and_then extends_reset extends_enter extends_click extends_wait)
  show ?thesis
  proof (cases ?pre)
    case (Proceed st1)
    with assms have h: "stage_harvest d asin a st1 = Some f" by (simp add: iteration_step_def)
    from pre Proceed have "extends d st (Proceed st1)" by simp
    moreover from extends_harvest[OF h] have "extends d (flow_state (Proceed st1)) f"
      by (simp add: flow_state_def)
    ultimately show ?thesis by (rule extends_trans)
  next
    case (Skip st1)
    with assms pre show ?thesis by (simp add: iteration_step_def)
  next
    case (Abort e st1)
    with assms pre show ?thesis by (simp add: iteration_step_def)
  qed
qed

lemma scrape_loop_events:
  "scrape_loop d ans i asins st = Some r \<Longrightarrow>
   \<exists>evs. events (case r of Inl x \<Rightarrow> snd x | Inr st' \<Rightarrow> st') = events st @ evs \<and> only_domain d evs"
proof (induction asins arbitrary: i st)
  case Nil
  then show ?case by auto
next
  case (Cons asin rest)
  from Cons.prems obtain f where f: "iteration_step d asin (ans i) st = Some f"
    by (auto split: option.splits)
  from extends_iteration[OF f] obtain e1 where
    e1: "events (flow_state f) = events st @ e1" "only_domain d e1" by (auto simp: extends_def)
  show ?case
  proof (cases f)
    case (Abort e st1)
    with f Cons.prems e1 show ?thesis by (auto simp: flow_state_def)
  next
    case (Skip st1)
    with f Cons.prems have "scrape_loop d ans (Suc i) rest st1 = Some r" by simp
    from Cons.IH[OF this] obtain e2 where
      "events (case r of Inl x \<Rightarrow> snd x | Inr st' \<Rightarrow> st') = events st1 @ e2" "only_domain d e2" by blast
    with e1 Skip have "events (case r of Inl x \<Rightarrow> snd x | Inr st' \<Rightarrow> st') = events st @ (e1 @ e2) \<and>
        only_domain d (e1 @ e2)" by (simp add: flow_state_def)
    then show ?thesis by blast
  next
    case (Proceed st1)
    with f Cons.prems have "scrape_loop d ans (Suc i) rest st1 = Some r" by simp
    from Cons.IH[OF this] obtain e2 where
      "events (case r of Inl x \<Rightarrow> snd x | Inr st' \<Rightarrow> st') = events st1 @ e2" "only_domain d e2" by blast
    with e1 Proceed have "events (case r of Inl x \<Rightarrow> snd x | Inr st' \<Rightarrow> st') = events st @ (e1 @ e2) \<and>
        only_domain d (e1 @ e2)" by (simp add: flow_state_def)
    then show ?thesis by blast
  qed
qed

lemma marketplace_map_no_empty: "map_of marketplace_map [] = None"
  by (simp add: marketplace_map_def ascii_def)

lemma marketplace_value_empty: "py_strip raw = [] \<Longrightarrow> marketplace_value U raw = []"
  by (simp add: marketplace_value_def py_lower_def marketplace_map_no_empty)

lemma run_events:
  assumes "run_competitor_scraper U B email password inp raw = Some r"
  shows "only_domain (marketplace_value U raw) (events_of r)"
proof (cases "load_h10_creds email password (env_email B) (env_password B)")
  case (Inl e)
  with assms show ?thesis by (auto simp: run_competitor_scraper_def events_of_def)
next
  case (Inr c)
  let ?d = "marketplace_value U raw"
  let ?st0 = "\<lparr>competitor_results = [], events = [StartChrome, SignIn, OpenCerebro, SelectMarketplace ?d]\<rparr>"
  show ?thesis
  proof (cases "?d = [] \<or> start_chrome B \<noteq> None \<or> sign_in B \<noteq> None \<or> open_cerebro B \<noteq> None
                 \<or> select_marketplace B \<noteq> None")
    case True
    with assms Inr show ?thesis
      by (auto simp: run_competitor_scraper_def events_of_def Let_def split: if_splits option.splits)
  next
    case False
    with assms Inr obtain r' where
      l: "scrape_loop ?d (answers B) 0 (asin_list inp) ?st0 = Some r'" and
      r: "r = (case r' of Inl x \<Rightarrow> Inl (fst x, events (snd x))
                | Inr st \<Rightarrow> Inr (competitors_sheet (competitor_results st), events st @ [WriteWorkbook, Quit]))"
      by (auto simp: run_competitor_scraper_def Let_def split: option.splits sum.splits prod.splits)
    from scrape_loop_events[OF l] obtain evs where
      "events (case r' of Inl x \<Rightarrow> snd x | Inr st' \<Rightarrow> st') = events ?st0 @ evs" "only_domain ?d evs"
      by blast
    with r show ?thesis by (cases r') (auto simp: events_of_def)
  qed
qed

lemma run_starts_browser:
  assumes "load_h10_creds email password (env_email B) (env_password B) = Inr c"
    and "marketplace_value U raw \<noteq> []"
    and "run_competitor_scraper U B email password inp raw = Some r"
  shows "take 1 (events_of r) = [StartChrome]"
proof (cases "start_chrome B \<noteq> None \<or> sign_in B \<noteq> None \<or> open_cerebro B \<noteq> None
                 \<or> select_marketplace B \<noteq> None")
  case True
  with assms show ?thesis
    by (auto simp: run_competitor_scraper_def events_of_def Let_def split: if_splits option.splits)
next
  case False
  let ?d = "marketplace_value U raw"
  let ?st0 = "\<lparr>competitor_results = [], events = [StartChrome, SignIn, OpenCerebro, SelectMarketplace ?d]\<rparr>"
  from False assms obtain r' where
      l: "scrape_loop ?d (answers B) 0 (asin_list inp) ?st0 = Some r'" and
      r: "r = (case r' of Inl x \<Rightarrow> Inl (fst x, events (snd x))
                | Inr st \<Rightarrow> Inr (competitors_sheet (competitor_results st), events st @ [WriteWorkbook, Quit]))"
      by (auto simp: run_competitor_scraper_def Let_def split: option.splits sum.splits prod.splits)
  from scrape_loop_events[OF l] obtain evs where
      "events (case r' of Inl x \<Rightarrow> snd x | Inr st' \<Rightarrow> st') = events ?st0 @ evs"
      by blast
  with r show ?thesis by (cases r') (auto simp: events_of_def)
qed

lemmas competitor_defs =
  run_competitor_scraper_def load_h10_creds_def truthy_def session_def calm_def no_button_def
  no_input_box_def stale_page_def no_credentials_def locked_out_def marketplace_value_def marketplace_map_def
  py_lower_def lower_cp_def py_strip_def isspace_def sample_ucd_def ascii_def
  asin_list_def py_split_def replace_comma_def
  iteration_step_def stage_reset_def stage_enter_def stage_click_def stage_wait_def
  stage_harvest_def hard_reload_def and_then_def logged_def card_row_def
  competitors_sheet_def DataFrame_def empty_frame_def competitor_columns_def Let_def




lemma scrape_cards_raises:
  "scrape_cards d asin cards rs = Inl (e, rs') \<Longrightarrow> first_error cards = Some e"
  by (induction cards arbitrary: rs rule: first_error.induct) simp_all























subsection \<open>Competitor discovery: the marketplace selector\<close>

text \<open>
  Claim C10, as amended.  Provided the Helium 10 credentials are found,
  \<open>run_competitor_scraper\<close> raises \<open>ValueError\<close> before any browser work when the selector
  is empty or white space only; and when the trimmed selector is not empty and matches no
  alias, it is not rejected (the run starts the browser) and the trimmed raw string is the
  marketplace domain of every selection and hard reload of the run.
\<close>

theorem selector_check:
  "load_h10_creds email password (env_email B) (env_password B) = Inr c \<longrightarrow>
     (py_strip raw = [] \<longrightarrow>
        run_competitor_scraper U B email password inp raw = Some (Inl (ValueError, []))) \<and>
     (py_strip raw \<noteq> [] \<and> map_of marketplace_map (py_lower U (py_strip raw)) = None \<longrightarrow>
        marketplace_value U raw = py_strip raw \<and>
        (\<forall>r. run_competitor_scraper U B email password inp raw = Some r \<longrightarrow>
               take 1 (events_of r) = [StartChrome] \<and> only_domain (py_strip raw) (events_of r)))"
proof (intro impI conjI allI)
  assume c: "load_h10_creds email password (env_email B) (env_password B) = Inr c"
  { assume "py_strip raw = []"
    then show "run_competitor_scraper U B email password inp raw = Some (Inl (ValueError, []))"
      using c by (simp add: run_competitor_scraper_def marketplace_value_empty) }
  { assume h: "py_strip raw \<noteq> [] \<and> map_of marketplace_map (py_lower U (py_strip raw)) = None"
    then show mv: "marketplace_value U raw = py_strip raw" by (simp add: marketplace_value_def)
    fix r assume r: "run_competitor_scraper U B email password inp raw = Some r"
    from run_starts_browser[OF c _ r] h mv show "take 1 (events_of r) = [StartChrome]" by simp
    from run_events[OF r] mv show "only_domain (py_strip raw) (events_of r)" by simp }
qed

theorem selector_check_witness:
  "load_h10_creds None None (env_email (session calm)) (env_password (session calm))
     = Inr (ascii ''me@example.com'', ascii ''secret'') \<and>
   py_strip (ascii ''   '') = [] \<and>
   run_competitor_scraper sample_ucd (session calm) None None (ascii ''B0ABCDEFGH'') (ascii ''   '')
     = Some (Inl (ValueError, [])) \<and>
   py_strip (ascii '' Mars '') = ascii ''Mars'' \<and>
   map_of marketplace_map (py_lower sample_ucd (ascii ''Mars'')) = None \<and>
   marketplace_value sample_ucd (ascii '' Mars '') = ascii ''Mars'' \<and>
   run_competitor_scraper sample_ucd (session calm) None None (ascii ''B0ABCDEFGH'') (ascii '' Mars '') =
     Some (Inr (\<lparr>columns = competitor_columns,
                  cells = [[Str (ascii ''B0ABCDEFGH''), Str (ascii ''B0XYZ12345''),
                            Str (ascii ''Steel bottle''), Str [],
                            Str (ascii ''https://Mars/dp/B0XYZ12345'')]]\<rparr>,
                [StartChrome, SignIn, OpenCerebro, SelectMarketplace (ascii ''Mars''),
                 SoftReset, EnterAsin (ascii ''B0ABCDEFGH''), ClickGetCompetitors,
                 AwaitResults (ascii ''B0ABCDEFGH''), RevealCards 11, SoftReset,
                 WriteWorkbook, Quit])) \<and>
   only_domain (ascii ''Mars'')
     [StartChrome, SignIn, OpenCerebro, SelectMarketplace (ascii ''Mars''),
      SoftReset, EnterAsin (ascii ''B0ABCDEFGH''), ClickGetCompetitors,
      AwaitResults (ascii ''B0ABCDEFGH''), RevealCards 11, SoftReset, WriteWorkbook, Quit]"
proof -
  have creds: "load_h10_creds None None (env_email (session calm)) (env_password (session calm))
     = Inr (ascii ''me@example.com'', ascii ''secret'')"
    by (simp add: load_h10_creds_def truthy_def session_def ascii_def)
  have s1: "py_strip (ascii ''   '') = []" by (simp add: py_strip_def isspace_def ascii_def)
  have s2: "py_strip (ascii '' Mars '') = ascii ''Mars''" by (simp add: py_strip_def isspace_def ascii_def)
  have m: "map_of marketplace_map (py_lower sample_ucd (ascii ''Mars'')) = None"
    by (simp add: marketplace_map_def py_lower_def lower_cp_def ascii_def)
  have ne: "ascii ''Mars'' \<noteq> []" by (simp add: ascii_def)
  have run: "run_competitor_scraper sample_ucd (session calm) None None (ascii ''B0ABCDEFGH'') (ascii '' Mars '') =
     Some (Inr (\<lparr>columns = competitor_columns,
                  cells = [[Str (ascii ''B0ABCDEFGH''), Str (ascii ''B0XYZ12345''),
                            Str (ascii ''Steel bottle''), Str [],
                            Str (ascii ''https://Mars/dp/B0XYZ12345'')]]\<rparr>,
                [StartChrome, SignIn, OpenCerebro, SelectMarketplace (ascii ''Mars''),
                 SoftReset, EnterAsin (ascii ''B0ABCDEFGH''), ClickGetCompetitors,
                 AwaitResults (ascii ''B0ABCDEFGH''), RevealCards 11, SoftReset,
                 WriteWorkbook, Quit]))"
    by (simp add: competitor_defs reveal_calm)
  note t1 = selector_check[of None None "session calm" _ "ascii ''   ''" sample_ucd "ascii ''B0ABCDEFGH''"]
  note t2 = selector_check[of None None "session calm" _ "ascii '' Mars ''" sample_ucd "ascii ''B0ABCDEFGH''"]
  from t1 creds s1 have v: "run_competitor_scraper sample_ucd (session calm) None None
      (ascii ''B0ABCDEFGH'') (ascii ''   '') = Some (Inl (ValueError, []))" by blast
  from t2 creds s2 m ne have mv: "marketplace_value sample_ucd (ascii '' Mars '') = ascii ''Mars''"
    by simp
  from t2 creds s2 m ne run have od: "only_domain (ascii ''Mars'')
     [StartChrome, SignIn, OpenCerebro, SelectMarketplace (ascii ''Mars''),
      SoftReset, EnterAsin (ascii ''B0ABCDEFGH''), ClickGetCompetitors,
      AwaitResults (ascii ''B0ABCDEFGH''), RevealCards 11, SoftReset, WriteWorkbook, Quit]"
    by (simp add: events_of_def)
  from creds s1 v s2 m mv run od show ?thesis by blast
qed

text \<open>
  Claim C10 as stated fails where the credentials are missing: \<open>_load_h10_creds\<close> runs
  first, and with an empty selector the run raises \<open>RuntimeError\<close>, not \<open>ValueError\<close>.
\<close>

theorem missing_credentials_raise_first:
  "run_competitor_scraper sample_ucd no_credentials None None (ascii ''B0ABCDEFGH'') []
     = Some (Inl (RuntimeError, [])) \<and> RuntimeError \<noteq> ValueError"
  by (simp add: competitor_defs)

end
